theory Spec2Isabelle
  imports Complex_Main "HOL-Library.AList" "HOL-Library.Sublist"
begin

section \<open>Retriever: \<open>app/services/search.py\<close>\<close>

text \<open>
  Python floats are modelled as \<^typ>\<open>real\<close>: the claims about the score are claims of
  real arithmetic, and rounding is outside this development.

  \<^verbatim>\<open>
  similarity = float(results['distances'][0][i])
  if similarity > 1.0:  # Convert distance to similarity if needed
      similarity = 1.0 - min(similarity, 2.0) / 2.0
  \<close>
\<close>

definition similarity_of :: "real \<Rightarrow> real" where
  "similarity_of distance =
     (let similarity = distance
      in if similarity > 1 then 1 - min similarity 2 / 2 else similarity)"

text \<open>
  The smoke test of \<open>scripts/process_videos.py\<close> (\<open>test_query\<close>) converts every distance,
  without the guard: \<^verbatim>\<open>similarity = 1.0 - min(distance, 2.0) / 2.0\<close>.
\<close>

definition test_query_similarity :: "real \<Rightarrow> real" where
  "test_query_similarity distance = 1 - min distance 2 / 2"

text \<open>The mapping in the words of the specification (section 4.5).\<close>

definition spec_similarity :: "real \<Rightarrow> real" where
  "spec_similarity distance =
     (if 0 \<le> distance \<and> distance \<le> 1 then distance else 1 - min distance 2 / 2)"

record frame_record =
  frame_id :: string
  filename :: string
  video_filename :: string
  frame_number :: int
  timestamp :: real
  description :: "string option"

record frame_response =
  image_url :: string
  resp_video_filename :: string
  resp_frame_number :: int
  similarity_score :: "real option"

text \<open>
  The loop of \<open>SearchService.search\<close> over the hits of one query: the collection returns
  the ids and the distances as two aligned lists, here a list of pairs. A hit whose id is
  not in the metadata mapping is skipped.
\<close>

fun search_results :: "(string \<rightharpoonup> frame_record) \<Rightarrow> (string \<times> real) list \<Rightarrow> frame_response list" where
  "search_results frame_metadata [] = []"
| "search_results frame_metadata ((fid, distance) # hits) =
     (case frame_metadata fid of
        None \<Rightarrow> search_results frame_metadata hits
      | Some metadata \<Rightarrow>
          \<lparr> image_url = filename metadata,
            resp_video_filename = video_filename metadata,
            resp_frame_number = frame_number metadata,
            similarity_score = Some (similarity_of distance) \<rparr>
          # search_results frame_metadata hits)"

section \<open>Python values used by the extractor\<close>

datatype py_error = ValueError string | ZeroDivisionError | KeyError string

text \<open>\<open>int(x)\<close> on a float truncates toward zero.\<close>

definition py_int :: "real \<Rightarrow> int" where
  "py_int x = (if 0 \<le> x then \<lfloor>x\<rfloor> else \<lceil>x\<rceil>)"

text \<open>Truthiness of an optional integer: \<open>None\<close> and \<open>0\<close> are false.\<close>

definition truthy :: "int option \<Rightarrow> bool" where
  "truthy m = (case m of None \<Rightarrow> False | Some n \<Rightarrow> n \<noteq> 0)"

text \<open>\<open>os.path.basename\<close> on a POSIX path: what follows the last \<open>/\<close>.\<close>

definition basename :: "string \<Rightarrow> string" where
  "basename p = rev (takeWhile (\<lambda>c. c \<noteq> CHR ''/'') (rev p))"

text \<open>
  \<open>os.path.splitext(p)[0]\<close> on a POSIX path: the path up to its last dot, unless there is
  no dot, the last dot comes before the last \<open>/\<close>, or only dots stand between the last
  \<open>/\<close> and the last dot.
\<close>

definition splitext_root :: "string \<Rightarrow> string" where
  "splitext_root p =
     (let ext = takeWhile (\<lambda>c. c \<noteq> CHR ''.'') (rev p)
      in if length ext = length p \<or> list_ex (\<lambda>c. c = CHR ''/'') ext then p
         else let root = take (length p - length ext - 1) p;
                  fname = takeWhile (\<lambda>c. c \<noteq> CHR ''/'') (rev root)
              in if list_ex (\<lambda>c. c \<noteq> CHR ''.'') fname then root else p)"

text \<open>Decimal digits of a natural number, and the format \<open>{n:05d}\<close>.\<close>

definition digit_char :: "nat \<Rightarrow> char" where
  "digit_char d = ''0123456789'' ! d"

fun str_nat :: "nat \<Rightarrow> string" where
  "str_nat n = (if n < 10 then [digit_char n] else str_nat (n div 10) @ [digit_char (n mod 10)])"

declare str_nat.simps [simp del]

definition format_05d :: "nat \<Rightarrow> string" where
  "format_05d n = (let s = str_nat n in replicate (5 - length s) CHR ''0'' @ s)"

text \<open>\<open>sep.join(xs)\<close>.\<close>

fun str_join :: "string \<Rightarrow> string list \<Rightarrow> string" where
  "str_join sep [] = []"
| "str_join sep [x] = x"
| "str_join sep (x # y # ys) = x @ sep @ str_join sep (y # ys)"

section \<open>Sampler, Captioner and Frame Store: \<open>app/services/extractor.py\<close>\<close>

text \<open>
  A video file as \<open>cv2.VideoCapture\<close> shows it: whether it opens, the two properties the
  extractor reads, and the frames that successive \<open>cap.read()\<close> calls deliver before one
  returns \<open>ret = False\<close>. The type \<open>'f\<close> is the image of a frame.
\<close>

record 'f video =
  video_path :: string
  isOpened :: bool
  CAP_PROP_FPS :: real
  CAP_PROP_FRAME_COUNT :: real
  frames :: "'f list"

text \<open>
  The extractor object with the settings it reads. \<open>clip_model\<close> is \<open>None\<close> when CLIP is
  unavailable, disabled or failed to load; otherwise it stands for the whole CLIP pipeline
  of \<open>_generate_frame_description\<close> up to \<open>topk(3)\<close>: it yields the indices of the three best
  labels, or the exception that one of the calls raised. \<open>uuid4\<close> numbers the identifiers
  that \<open>uuid.uuid4()\<close> hands out.
\<close>

record 'f frame_extractor =
  videos_dir :: string
  frames_dir :: string
  ember_only :: bool
  clip_model :: "('f \<Rightarrow> py_error + nat list) option"
  FRAMES_PER_SECOND :: real
  uuid4 :: "nat \<Rightarrow> string"
  float_round :: "real \<Rightarrow> real"

text \<open>
  What the extractor changes: the image files written to the frames directory (in the
  order of the \<open>cv2.imwrite\<close> calls; a later write to the same name replaces the file),
  the metadata snapshot \<open>metadata.json\<close>, and the number of identifiers drawn so far.
\<close>

record 'f world =
  frames_dir_writes :: "(string \<times> 'f) list"
  metadata_json :: "(string \<times> frame_record) list option"
  uuid_calls :: nat

definition get_candidate_labels :: "'f frame_extractor \<Rightarrow> string list" where
  "get_candidate_labels ex =
     (if ember_only ex then
        [''Ember character'', ''Ember holding phone'', ''Ember using phone'',
         ''Ember close-up'', ''Ember from distance'', ''Ember smiling'',
         ''Ember talking'', ''Ember walking'', ''Ember sitting'', ''Ember standing'',
         ''indoor scene'', ''outdoor scene'', ''daytime scene'', ''nighttime scene'',
         ''person holding smartphone'', ''person using mobile phone'',
         ''person looking at phone screen'', ''person texting on phone'',
         ''person taking selfie'', ''person recording video'']
      else
        [''Ember character'', ''Ember holding phone'', ''Ember using phone'',
         ''Ember close-up'', ''Ember from distance'', ''Ember smiling'',
         ''Ember talking'', ''Ember walking'', ''Ember sitting'', ''Ember standing'',
         ''person'', ''bicycle'', ''car'', ''motorcycle'', ''airplane'', ''bus'', ''train'',
         ''truck'', ''boat'', ''traffic light'', ''fire hydrant'', ''stop sign'',
         ''parking meter'', ''bench'',
         ''chair'', ''couch'', ''potted plant'', ''bed'', ''dining table'', ''toilet'', ''tv'',
         ''laptop'', ''mouse'', ''remote'', ''keyboard'', ''cell phone'', ''microwave'',
         ''oven'', ''toaster'', ''sink'', ''refrigerator'', ''book'', ''clock'', ''vase'',
         ''scissors'', ''teddy bear'', ''hair drier'', ''toothbrush'',
         ''umbrella'', ''handbag'', ''tie'', ''suitcase'', ''frisbee'', ''skis'',
         ''snowboard'', ''sports ball'', ''kite'', ''baseball bat'', ''baseball glove'',
         ''skateboard'', ''surfboard'', ''tennis racket'',
         ''indoor scene'', ''outdoor scene'', ''urban environment'', ''natural environment'',
         ''daytime scene'', ''nighttime scene'', ''sunset scene'', ''sunrise scene'',
         ''crowded scene'', ''empty scene'', ''busy environment'', ''quiet environment'',
         ''person standing'', ''person sitting'', ''person walking'', ''person running'',
         ''person jumping'', ''person dancing'', ''person exercising'', ''person working'',
         ''person using phone'', ''person using laptop'', ''person reading'',
         ''person writing'', ''person talking'', ''person smiling'', ''person laughing'',
         ''person looking'',
         ''person holding smartphone'', ''person using mobile phone'',
         ''person looking at phone screen'', ''person texting on phone'',
         ''person taking selfie'', ''person recording video'', ''person scrolling phone'',
         ''person holding phone up'', ''person holding phone down'',
         ''person using phone while walking'', ''person using phone while sitting'',
         ''close-up shot'', ''wide shot'', ''medium shot'', ''group shot'', ''solo shot'',
         ''candid moment'', ''posed shot'', ''action shot'', ''portrait shot'',
         ''landscape shot'', ''street scene'', ''park scene'', ''office scene'',
         ''home scene'', ''restaurant scene''])"

text \<open>
  \<open>_generate_frame_description\<close>: the whole body is inside \<open>try\<close>, and \<open>except Exception\<close>
  prints the error and returns \<open>None\<close>. An index outside the label list raises inside the
  same \<open>try\<close>.
\<close>

definition generate_frame_description ::
    "'f frame_extractor \<Rightarrow> ('f \<Rightarrow> py_error + nat list) \<Rightarrow> 'f \<Rightarrow> string option" where
  "generate_frame_description ex model frame =
     (case model frame of
        Inl e \<Rightarrow> None
      | Inr indices \<Rightarrow>
          (let candidate_labels = get_candidate_labels ex
           in if list_ex (\<lambda>idx. length candidate_labels \<le> idx) indices then None
              else Some (str_join '', '' (map (\<lambda>idx. candidate_labels ! idx) indices))))"

text \<open>
  The caption step of the extraction loop:
  \<^verbatim>\<open>
  if self.clip_model is not None:
      description = self._generate_frame_description(frame_path)
      if description:
          metadata["description"] = description
  \<close>
\<close>

definition frame_caption :: "'f frame_extractor \<Rightarrow> 'f \<Rightarrow> string option" where
  "frame_caption ex frame =
     (case clip_model ex of
        None \<Rightarrow> None
      | Some model \<Rightarrow>
          (case generate_frame_description ex model frame of
             None \<Rightarrow> None
           | Some d \<Rightarrow> if d \<noteq> [] then Some d else None))"

definition frame_filename_of :: "string \<Rightarrow> nat \<Rightarrow> string" where
  "frame_filename_of video_fname processed_count =
     splitext_root video_fname @ ''_frame_'' @ format_05d processed_count @ ''.jpg''"

text \<open>
  Python's \<open>x / y\<close> on floats, for a divisor that is not zero (the callers test that
  first, since a zero divisor raises). The values are doubles: the quotient of the two
  numbers is rounded to the nearest double, which \<open>float_round\<close> of the extractor's
  runtime stands for; a zero dividend gives zero exactly.
\<close>

definition py_truediv :: "'f frame_extractor \<Rightarrow> real \<Rightarrow> real \<Rightarrow> real" where
  "py_truediv ex x y = (if x = 0 then 0 else float_round ex (x / y))"

text \<open>
  \<^verbatim>\<open>
  frame_interval = int(video_fps / fps)
  if frame_interval < 1:
      frame_interval = 1
  \<close>
  The division raises when \<open>fps\<close> is zero.
\<close>

definition frame_interval_of :: "'f frame_extractor \<Rightarrow> real \<Rightarrow> real \<Rightarrow> py_error + int" where
  "frame_interval_of ex video_fps fps =
     (if fps = 0 then Inl ZeroDivisionError
      else let frame_interval = py_int (py_truediv ex video_fps fps)
           in Inr (if frame_interval < 1 then 1 else frame_interval))"

definition frames_to_extract_of :: "int option \<Rightarrow> int \<Rightarrow> int \<Rightarrow> int" where
  "frames_to_extract_of max_frames total_frames frame_interval =
     (case max_frames of
        None \<Rightarrow> total_frames
      | Some n \<Rightarrow> if n \<noteq> 0 then min total_frames (n * frame_interval) else total_frames)"

text \<open>
  The three steps of the loop body for a selected frame. First the identifier is drawn
  and the image written:
  \<^verbatim>\<open>
  frame_id = str(uuid.uuid4())
  frame_filename = f"{os.path.splitext(video_filename)[0]}_frame_{processed_count:05d}.jpg"
  cv2.imwrite(frame_path, frame)
  \<close>
\<close>

definition write_frame :: "string \<Rightarrow> nat \<Rightarrow> 'f \<Rightarrow> 'f world \<Rightarrow> 'f world" where
  "write_frame video_fname processed_count frame w =
     w\<lparr>frames_dir_writes :=
         frames_dir_writes w @ [(frame_filename_of video_fname processed_count, frame)],
       uuid_calls := Suc (uuid_calls w)\<rparr>"

text \<open>
  Then the metadata dictionary is built, with the caption when there is one. The world
  argument is the one before the write: it gives the identifier drawn. The division is
  the one that raises when \<open>video_fps\<close> is zero; the loop tests that before it builds the
  record.
\<close>

definition new_metadata ::
    "'f frame_extractor \<Rightarrow> string \<Rightarrow> real \<Rightarrow> nat \<Rightarrow> nat \<Rightarrow> 'f \<Rightarrow> 'f world \<Rightarrow> frame_record" where
  "new_metadata ex video_fname video_fps frame_count processed_count frame w =
     \<lparr> frame_id = uuid4 ex (uuid_calls w),
       filename = frame_filename_of video_fname processed_count,
       video_filename = video_fname,
       frame_number = int frame_count,
       timestamp = py_truediv ex (real frame_count) video_fps,
       description = frame_caption ex frame \<rparr>"

text \<open>Last, \<^verbatim>\<open>if max_frames and processed_count >= max_frames: break\<close>.\<close>

definition cap_reached :: "int option \<Rightarrow> nat \<Rightarrow> bool" where
  "cap_reached max_frames processed_count =
     (case max_frames of None \<Rightarrow> False | Some n \<Rightarrow> n \<noteq> 0 \<and> n \<le> int processed_count)"

text \<open>
  The \<open>while\<close> loop of \<open>extract_frames_from_video\<close>, one call per \<open>cap.read()\<close>. The
  arguments that change are the frames still to be read, \<open>frame_count\<close>,
  \<open>processed_count\<close>, \<open>frame_metadata\<close> and the world. The counters start at 0 and only
  grow, so they are natural numbers. The image is written before the metadata is built,
  so it is on disk when the timestamp's division raises.
\<close>

fun extract_loop ::
    "'f frame_extractor \<Rightarrow> string \<Rightarrow> real \<Rightarrow> int \<Rightarrow> int option \<Rightarrow> int \<Rightarrow>
     'f list \<Rightarrow> nat \<Rightarrow> nat \<Rightarrow> frame_record list \<Rightarrow> 'f world \<Rightarrow>
     (py_error + frame_record list) \<times> 'f world" where
  "extract_loop ex video_fname video_fps frame_interval max_frames frames_to_extract
       [] frame_count processed_count frame_metadata w = (Inr frame_metadata, w)"
| "extract_loop ex video_fname video_fps frame_interval max_frames frames_to_extract
       (frame # rest) frame_count processed_count frame_metadata w =
     (if \<not> int frame_count < frames_to_extract then (Inr frame_metadata, w)
      else if int frame_count mod frame_interval = 0 then
        (let w1 = write_frame video_fname processed_count frame w
         in if video_fps = 0 then (Inl ZeroDivisionError, w1)
            else
              (let metadata = new_metadata ex video_fname video_fps frame_count
                                processed_count frame w;
                   frame_metadata1 = frame_metadata @ [metadata]
               in if cap_reached max_frames (Suc processed_count)
                  then (Inr frame_metadata1, w1)
                  else extract_loop ex video_fname video_fps frame_interval max_frames
                         frames_to_extract rest (Suc frame_count) (Suc processed_count)
                         frame_metadata1 w1))
      else extract_loop ex video_fname video_fps frame_interval max_frames
             frames_to_extract rest (Suc frame_count) processed_count frame_metadata w)"

text \<open>\<^verbatim>\<open>fps = frames_per_second or settings.FRAMES_PER_SECOND\<close>.\<close>

definition target_fps :: "'f frame_extractor \<Rightarrow> real option \<Rightarrow> real" where
  "target_fps ex frames_per_second =
     (case frames_per_second of
        None \<Rightarrow> FRAMES_PER_SECOND ex
      | Some f \<Rightarrow> if f \<noteq> 0 then f else FRAMES_PER_SECOND ex)"

definition extract_frames_from_video ::
    "'f frame_extractor \<Rightarrow> 'f video \<Rightarrow> real option \<Rightarrow> int option \<Rightarrow> 'f world \<Rightarrow>
     (py_error + frame_record list) \<times> 'f world" where
  "extract_frames_from_video ex v frames_per_second max_frames w =
     (let fps = target_fps ex frames_per_second;
          video_fname = basename (video_path v)
      in if \<not> isOpened v
         then (Inl (ValueError (''Could not open video file: '' @ video_path v)), w)
         else
           (let video_fps = CAP_PROP_FPS v;
                total_frames = py_int (CAP_PROP_FRAME_COUNT v)
            in case frame_interval_of ex video_fps fps of
                 Inl e \<Rightarrow> (Inl e, w)
               | Inr frame_interval \<Rightarrow>
                   extract_loop ex video_fname video_fps frame_interval max_frames
                     (frames_to_extract_of max_frames total_frames frame_interval)
                     (frames v) 0 0 [] w))"

text \<open>
  \<open>videos_dir.glob('*' + ext)\<close>: the entries of the directory whose name ends with the
  extension, in the order of the listing.
\<close>

definition glob_ext :: "'f video list \<Rightarrow> string \<Rightarrow> 'f video list" where
  "glob_ext entries ext = filter (\<lambda>v. suffix ext (basename (video_path v))) entries"

definition video_files_of :: "'f video list \<Rightarrow> 'f video list" where
  "video_files_of entries = concat (map (glob_ext entries) [''.mp4'', ''.avi'', ''.mov'', ''.mkv''])"

text \<open>
  The \<open>for video_path in video_files\<close> loop of \<open>process_all_videos\<close>. There is no
  \<open>try\<close> around the call: an error of one video leaves the loop and the function.
  \<open>all_metadata\<close> is a dictionary, kept as an association list in insertion order.
\<close>

fun process_videos_loop ::
    "'f frame_extractor \<Rightarrow> 'f video list \<Rightarrow> (string \<times> frame_record) list \<Rightarrow> 'f world \<Rightarrow>
     (py_error + (string \<times> frame_record) list) \<times> 'f world" where
  "process_videos_loop ex [] all_metadata w = (Inr all_metadata, w)"
| "process_videos_loop ex (v # vs) all_metadata w =
     (case extract_frames_from_video ex v None None w of
        (Inl e, w1) \<Rightarrow> (Inl e, w1)
      | (Inr frame_metadata, w1) \<Rightarrow>
          process_videos_loop ex vs
            (fold (\<lambda>metadata all. AList.update (frame_id metadata) metadata all)
               frame_metadata all_metadata) w1)"

definition process_all_videos ::
    "'f frame_extractor \<Rightarrow> 'f video list \<Rightarrow> 'f world \<Rightarrow>
     (py_error + (string \<times> frame_record) list) \<times> 'f world" where
  "process_all_videos ex entries w =
     (let video_files = video_files_of entries
      in if video_files = []
         then (Inl (ValueError (''No video files found in '' @ videos_dir ex)), w)
         else (case process_videos_loop ex video_files [] w of
                 (Inl e, w1) \<Rightarrow> (Inl e, w1)
               | (Inr all_metadata, w1) \<Rightarrow>
                   (Inr all_metadata, w1\<lparr>metadata_json := Some all_metadata\<rparr>)))"

section \<open>Indexer: \<open>scripts/process_videos.py\<close>\<close>

text \<open>
  \<open>index_frames\<close> gets the metadata either from \<open>process_all_videos\<close> or from
  \<open>metadata.json\<close>, so a frame's dictionary may lack a key. The four keys it reads:
\<close>

record frame_data =
  fd_description :: "string option"
  fd_video_filename :: "string option"
  fd_frame_number :: "int option"
  fd_timestamp :: "real option"

text \<open>The dictionary of a record that the extractor built.\<close>

definition frame_data_of :: "frame_record \<Rightarrow> frame_data" where
  "frame_data_of r =
     \<lparr> fd_description = description r, fd_video_filename = Some (video_filename r),
       fd_frame_number = Some (frame_number r), fd_timestamp = Some (timestamp r) \<rparr>"

text \<open>\<open>s.replace(a, b)\<close> for single characters, and \<open>s.strip()\<close> on ASCII.\<close>

definition replace_char :: "char \<Rightarrow> char \<Rightarrow> string \<Rightarrow> string" where
  "replace_char a b s = map (\<lambda>c. if c = a then b else c) s"

definition is_space :: "char \<Rightarrow> bool" where
  "is_space c = (let n = (of_char c :: nat) in (9 \<le> n \<and> n \<le> 13) \<or> (28 \<le> n \<and> n \<le> 32))"

definition py_strip :: "string \<Rightarrow> string" where
  "py_strip s = rev (dropWhile is_space (rev (dropWhile is_space s)))"

text \<open>
  The document of one frame, lines 56 to 73 of the script:
  \<^verbatim>\<open>
  doc_text = []
  if "description" in frame_data:
      doc_text.append(frame_data["description"])
  video_name = os.path.splitext(frame_data["video_filename"])[0]
  video_name = video_name.replace("_", " ").replace("-", " ")
  doc_text.append(f"Video: {video_name}")
  doc_text.append("Frame from video content")
  doc_text.append("Scene from video")
  document = " ".join(doc_text)
  \<close>
\<close>

definition document_of :: "frame_data \<Rightarrow> py_error + string" where
  "document_of fd =
     (let doc_text = (case fd_description fd of None \<Rightarrow> [] | Some d \<Rightarrow> [d])
      in case fd_video_filename fd of
           None \<Rightarrow> Inl (KeyError ''video_filename'')
         | Some vf \<Rightarrow>
             (let video_name = splitext_root vf;
                  video_name1 = replace_char CHR ''-'' CHR '' ''
                                  (replace_char CHR ''_'' CHR '' '' video_name);
                  doc_text1 = doc_text @ [''Video: '' @ video_name1];
                  doc_text2 = doc_text1 @ [''Frame from video content''];
                  doc_text3 = doc_text2 @ [''Scene from video'']
              in Inr (str_join '' '' doc_text3)))"

text \<open>One entry of the batch: the id, the document and the metadata sidecar.\<close>

record collection_entry =
  entry_id :: string
  entry_document :: string
  entry_video_filename :: string
  entry_frame_number :: int
  entry_timestamp :: real

text \<open>
  The loop over \<open>metadata.items()\<close>. The three lists \<open>ids\<close>, \<open>documents\<close> and \<open>metadatas\<close>
  grow together, so they are one list of entries. A document that is empty after
  \<open>strip()\<close> is skipped; a missing key raises \<open>KeyError\<close>.
\<close>

fun prepare_entries ::
    "(string \<times> frame_data) list \<Rightarrow> collection_entry list \<Rightarrow> py_error + collection_entry list" where
  "prepare_entries [] batch = Inr batch"
| "prepare_entries ((fid, fd) # items) batch =
     (case document_of fd of
        Inl e \<Rightarrow> Inl e
      | Inr document \<Rightarrow>
          if py_strip document = [] then prepare_entries items batch
          else (case fd_video_filename fd of
                  None \<Rightarrow> Inl (KeyError ''video_filename'')
                | Some vf \<Rightarrow>
                    (case fd_frame_number fd of
                       None \<Rightarrow> Inl (KeyError ''frame_number'')
                     | Some fn \<Rightarrow>
                         (case fd_timestamp fd of
                            None \<Rightarrow> Inl (KeyError ''timestamp'')
                          | Some ts \<Rightarrow>
                              prepare_entries items
                                (batch @ [\<lparr> entry_id = fid, entry_document = document,
                                            entry_video_filename = vf, entry_frame_number = fn,
                                            entry_timestamp = ts \<rparr>])))))"

text \<open>
  The command-line flags, and what the indexing step changes: the collection
  \<open>settings.COLLECTION_NAME\<close> of the ChromaDB client (\<open>None\<close> while it does not exist), the
  lines printed, and whether the smoke test \<open>test_query\<close> was started. The output of
  \<open>test_query\<close> itself depends on the embedding model and is not modelled.
\<close>

record args =
  recreate :: bool
  test :: bool
  skip_extraction :: bool

record index_world =
  collection :: "collection_entry list option"
  stdout :: "string list"
  test_query_started :: bool

definition COLLECTION_NAME :: string where
  "COLLECTION_NAME = ''ember_frames''"

text \<open>
  \<^verbatim>\<open>
  batch_size = 100
  for i in range(0, len(ids), batch_size):
      batch_end = min(i + batch_size, len(ids))
      collection.add(ids=ids[i:batch_end], ...)
      print(f"Indexed batch {i//batch_size + 1}/{(len(ids)-1)//batch_size + 1}")
  \<close>
  The argument \<open>k\<close> counts the batches added so far, so \<open>i = 100 * k\<close>.
  \<open>collection.add\<close> is taken to append its entries; what ChromaDB does with an id that
  the collection already holds is not modelled.
\<close>

fun add_batches :: "collection_entry list \<Rightarrow> nat \<Rightarrow> nat \<Rightarrow> index_world \<Rightarrow> index_world" where
  "add_batches batch 0 k w = w"
| "add_batches batch (Suc remaining) k w =
     (let i = 100 * k;
          batch_end = min (i + 100) (length batch);
          slice = take (batch_end - i) (drop i batch)
      in add_batches batch remaining (Suc k)
           (w\<lparr>collection := Some ((case collection w of None \<Rightarrow> [] | Some c \<Rightarrow> c) @ slice),
              stdout := stdout w @ [''Indexed batch '' @ str_nat (i div 100 + 1) @ ''/''
                                     @ str_nat ((length batch - 1) div 100 + 1)]\<rparr>))"

text \<open>
  The start of \<open>index_frames\<close>: the message, the deletion of the collection under
  \<open>--recreate\<close> when it exists, and \<open>get_or_create_collection\<close>.
\<close>

definition open_collection :: "args \<Rightarrow> index_world \<Rightarrow> index_world" where
  "open_collection a w =
     (let w1 = w\<lparr>stdout := stdout w @ [''Indexing frames in ChromaDB...'']\<rparr>;
          w2 = (if recreate a \<and> collection w1 \<noteq> None
                then w1\<lparr>collection := None,
                        stdout := stdout w1 @ [''Deleted existing collection: '' @ COLLECTION_NAME]\<rparr>
                else w1)
      in case collection w2 of None \<Rightarrow> w2\<lparr>collection := Some []\<rparr> | Some c \<Rightarrow> w2)"

definition index_frames ::
    "(string \<times> frame_data) list \<Rightarrow> args \<Rightarrow> index_world \<Rightarrow> (py_error + unit) \<times> index_world" where
  "index_frames metadata a w =
     (let w3 = open_collection a w
      in case prepare_entries metadata [] of
           Inl e \<Rightarrow> (Inl e, w3)
         | Inr batch \<Rightarrow>
             if batch = [] then (Inr (), w3\<lparr>stdout := stdout w3 @ [''No frames to index!'']\<rparr>)
             else
               (let w4 = add_batches batch ((length batch + 99) div 100) 0 w3;
                    w5 = w4\<lparr>stdout := stdout w4 @ [''Indexed '' @ str_nat (length batch)
                                                     @ '' frames in ChromaDB'']\<rparr>
                in (Inr (), if test a then w5\<lparr>test_query_started := True\<rparr> else w5)))"

text \<open>The document in the words of the specification (section 4.4).\<close>

definition spec_document :: "frame_record \<Rightarrow> string" where
  "spec_document r =
     (case description r of None \<Rightarrow> [] | Some caption \<Rightarrow> caption @ '' '')
     @ ''Video: ''
     @ map (\<lambda>c. if c = CHR ''_'' \<or> c = CHR ''-'' then CHR '' '' else c)
         (splitext_root (video_filename r))
     @ '' Frame from video content Scene from video''"

section \<open>Auxiliary notions for the proofs\<close>

text \<open>Reading a decimal string back, to show that the sequence numbers are told apart.\<close>

definition is_digit :: "char \<Rightarrow> bool" where
  "is_digit c = (c \<in> set ''0123456789'')"

definition digit_val :: "char \<Rightarrow> nat" where
  "digit_val c = of_char c - 48"

definition dec_val :: "string \<Rightarrow> nat" where
  "dec_val s = foldl (\<lambda>a c. 10 * a + digit_val c) 0 s"

text \<open>A record with its caption removed.\<close>

definition without_description :: "frame_record \<Rightarrow> frame_record" where
  "without_description r = r\<lparr>description := None\<rparr>"

text \<open>
  The image that a file of the frames directory holds: the last one written under the
  name.
\<close>

definition frames_dir_file :: "'f world \<Rightarrow> string \<Rightarrow> 'f option" where
  "frames_dir_file w name = map_of (rev (frames_dir_writes w)) name"

text \<open>
  The entry that the Indexer is to add for a record, and the entries of the collection
  (none while it does not exist).
\<close>

definition entry_of :: "string \<Rightarrow> frame_record \<Rightarrow> collection_entry" where
  "entry_of fid r = \<lparr> entry_id = fid, entry_document = spec_document r,
       entry_video_filename = video_filename r, entry_frame_number = frame_number r,
       entry_timestamp = timestamp r \<rparr>"

definition entries_of :: "index_world \<Rightarrow> collection_entry list" where
  "entries_of w = (case collection w of None \<Rightarrow> [] | Some c \<Rightarrow> c)"

text \<open>The filename stem that names the frames of a video.\<close>

definition video_stem :: "'f video \<Rightarrow> string" where
  "video_stem v = splitext_root (basename (video_path v))"

section \<open>Concrete inputs\<close>

text \<open>
  An extractor without CLIP at the default rate of one frame per second, an empty frames
  directory, and small videos whose frames are numbered images. Every quotient that the
  concrete inputs below lead to is a small whole number, which a double holds exactly, so
  the rounding of this extractor changes nothing.
\<close>

definition demo_extractor :: "nat frame_extractor" where
  "demo_extractor = \<lparr> videos_dir = ''data/videos'', frames_dir = ''data/frames'',
     ember_only = False, clip_model = None, FRAMES_PER_SECOND = 1,
     uuid4 = (\<lambda>n. ''uuid-'' @ str_nat n), float_round = (\<lambda>q. q) \<rparr>"

definition fresh_world :: "nat world" where
  "fresh_world = \<lparr> frames_dir_writes = [], metadata_json = None, uuid_calls = 0 \<rparr>"

definition demo_video :: "string \<Rightarrow> real \<Rightarrow> nat list \<Rightarrow> nat video" where
  "demo_video path native_fps images =
     \<lparr> video_path = path, isOpened = True, CAP_PROP_FPS = native_fps,
       CAP_PROP_FRAME_COUNT = real (length images), frames = images \<rparr>"

definition demo_clip :: "nat video" where
  "demo_clip = demo_video ''data/videos/clip.mp4'' 3 [10, 11, 12, 13, 14, 15, 16]"




definition short_clip :: "nat video" where
  "short_clip = demo_video ''data/videos/short.mp4'' 1 [10, 11]"

text \<open>
  An extractor whose CLIP pipeline raises on every image, and what it leaves behind on
  \<open>short_clip\<close>: two records without a caption and two images.
\<close>

definition raising_model :: "nat \<Rightarrow> py_error + nat list" where
  "raising_model frame = Inl (ValueError ''cannot identify image file'')"

definition raising_extractor :: "nat frame_extractor" where
  "raising_extractor = demo_extractor\<lparr>clip_model := Some raising_model\<rparr>"

definition short_record :: "nat \<Rightarrow> frame_record" where
  "short_record k = \<lparr> frame_id = ''uuid-'' @ str_nat k,
       filename = ''short_frame_0000'' @ str_nat k @ ''.jpg'',
       video_filename = ''short.mp4'', frame_number = int k, timestamp = real k,
       description = None \<rparr>"

definition short_world :: "nat world" where
  "short_world = \<lparr> frames_dir_writes =
        [(''short_frame_00000.jpg'', 10), (''short_frame_00001.jpg'', 11)],
      metadata_json = None, uuid_calls = 2 \<rparr>"


definition broken_video :: "string \<Rightarrow> nat video" where
  "broken_video path =
     \<lparr> video_path = path, isOpened = False, CAP_PROP_FPS = 0,
       CAP_PROP_FRAME_COUNT = 0, frames = [] \<rparr>"

text \<open>
  Two listings of the videos directory: an unreadable file between two good videos, and
  an unreadable file before a good video.
\<close>

definition mixed_batch :: "nat video list" where
  "mixed_batch = [short_clip, broken_video ''data/videos/bad.mp4'', demo_clip]"

definition bad_first_batch :: "nat video list" where
  "bad_first_batch = [broken_video ''data/videos/bad.mp4'', short_clip]"

text \<open>
  A directory with two good videos, and one with two videos whose names differ only in
  the extension. A video at four frames per second (its timestamps are multiples of a
  quarter, which a double holds exactly) and an extractor set to two frames per second,
  for a second run over it.
\<close>

definition quad_clip :: "nat video" where
  "quad_clip = demo_video ''data/videos/quad.mp4'' 4 [10, 11, 12, 13, 14, 15, 16, 17]"

definition faster_extractor :: "nat frame_extractor" where
  "faster_extractor = demo_extractor\<lparr>FRAMES_PER_SECOND := 2\<rparr>"

text \<open>A metadata mapping and the hits of one query, one of them stale.\<close>

definition demo_metadata :: "string \<rightharpoonup> frame_record" where
  "demo_metadata = [''uuid-0'' \<mapsto> short_record 0, ''uuid-1'' \<mapsto> short_record 1]"

definition demo_hits :: "(string \<times> real) list" where
  "demo_hits = [(''uuid-1'', 1/2), (''stale-id'', 3/4), (''uuid-0'', 3/2)]"

definition good_batch :: "nat video list" where
  "good_batch = [short_clip, demo_clip]"

definition twin_batch :: "nat video list" where
  "twin_batch = [demo_video ''data/videos/a.mp4'' 1 [10], demo_video ''data/videos/a.avi'' 1 [20]]"

text \<open>
  A record without a caption whose video name has both separators, the script run with
  no flag, and a ChromaDB client that has no collection yet.
\<close>

definition plain_record :: frame_record where
  "plain_record = \<lparr> frame_id = ''uuid-7'', filename = ''my_clip-01_frame_00000.jpg'',
       video_filename = ''my_clip-01.mp4'', frame_number = 0, timestamp = 0,
       description = None \<rparr>"

definition plain_args :: args where
  "plain_args = \<lparr> recreate = False, test = False, skip_extraction = False \<rparr>"

definition empty_index :: index_world where
  "empty_index = \<lparr> collection = None, stdout = [], test_query_started = False \<rparr>"

section \<open>The extraction loop, step by step\<close>

lemma extract_loop_stop:
  "\<not> int fc < fte \<Longrightarrow>
   extract_loop ex vf video_fps interval mf fte (frame # rest) fc pc acc w = (Inr acc, w)"
  by simp

lemma extract_loop_skip:
  "int fc < fte \<Longrightarrow> int fc mod interval \<noteq> 0 \<Longrightarrow>
   extract_loop ex vf video_fps interval mf fte (frame # rest) fc pc acc w
     = extract_loop ex vf video_fps interval mf fte rest (Suc fc) pc acc w"
  by simp

lemma extract_loop_zero:
  "int fc < fte \<Longrightarrow> int fc mod interval = 0 \<Longrightarrow> video_fps = 0 \<Longrightarrow>
   extract_loop ex vf video_fps interval mf fte (frame # rest) fc pc acc w
     = (Inl ZeroDivisionError, write_frame vf pc frame w)"
  by (simp add: Let_def)

lemma extract_loop_break:
  "int fc < fte \<Longrightarrow> int fc mod interval = 0 \<Longrightarrow> video_fps \<noteq> 0 \<Longrightarrow>
   cap_reached mf (Suc pc) \<Longrightarrow>
   extract_loop ex vf video_fps interval mf fte (frame # rest) fc pc acc w
     = (Inr (acc @ [new_metadata ex vf video_fps fc pc frame w]), write_frame vf pc frame w)"
  by (simp add: Let_def)

lemma extract_loop_select:
  "int fc < fte \<Longrightarrow> int fc mod interval = 0 \<Longrightarrow> video_fps \<noteq> 0 \<Longrightarrow>
   \<not> cap_reached mf (Suc pc) \<Longrightarrow>
   extract_loop ex vf video_fps interval mf fte (frame # rest) fc pc acc w
     = extract_loop ex vf video_fps interval mf fte rest (Suc fc) (Suc pc)
         (acc @ [new_metadata ex vf video_fps fc pc frame w]) (write_frame vf pc frame w)"
  by (simp add: Let_def)

lemma loop_cases:
  obtains (stop) "\<not> int fc < fte"
    | (skip) "int fc < fte" "int fc mod interval \<noteq> 0"
    | (zero) "int fc < fte" "int fc mod interval = 0" "video_fps = (0::real)"
    | (break) "int fc < fte" "int fc mod interval = 0" "video_fps \<noteq> 0"
        "cap_reached mf (Suc pc)"
    | (select) "int fc < fte" "int fc mod interval = 0" "video_fps \<noteq> 0"
        "\<not> cap_reached mf (Suc pc)"
  by argo

lemmas extract_loop_step =
  extract_loop_stop extract_loop_skip extract_loop_zero extract_loop_break extract_loop_select

declare extract_loop.simps(2) [simp del]
declare extract_loop_step [simp]

text \<open>The equations that evaluate an extraction on the concrete inputs.\<close>

lemmas demo_simps = demo_extractor_def fresh_world_def demo_video_def demo_clip_def short_clip_def
  broken_video_def target_fps_def frame_interval_of_def py_truediv_def py_int_def
  frames_to_extract_of_def
  extract_frames_from_video_def basename_def cap_reached_def

lemma extract_loop_metadata_json:
  "metadata_json (snd (extract_loop ex vf video_fps interval mf fte fs fc pc acc w))
     = metadata_json w"
proof (induction fs arbitrary: fc pc acc w)
  case Nil
  show ?case by simp
next
  case (Cons frame rest)
  show ?case
    by (cases rule: loop_cases[where fc=fc and fte=fte and interval=interval
          and video_fps=video_fps and mf=mf and pc=pc])
       (simp_all add: Cons.IH write_frame_def)
qed

lemma write_frame_names:
  "map fst (frames_dir_writes (write_frame vf pc frame w))
     = map fst (frames_dir_writes w) @ [frame_filename_of vf pc]"
  by (simp add: write_frame_def)

text \<open>
  Whatever the outcome, the files written by one pass carry the consecutive sequence
  numbers from \<open>processed_count\<close> on.
\<close>

lemma extract_loop_writes:
  "\<exists>k. map fst (frames_dir_writes
          (snd (extract_loop ex vf video_fps interval mf fte fs fc pc acc w)))
       = map fst (frames_dir_writes w) @ map (frame_filename_of vf) [pc..<pc + k]"
proof (induction fs arbitrary: fc pc acc w)
  case Nil
  show ?case by (rule exI[of _ 0]) simp
next
  case (Cons frame rest)
  let ?w1 = "write_frame vf pc frame w"
  have one: "map fst (frames_dir_writes ?w1)
      = map fst (frames_dir_writes w) @ map (frame_filename_of vf) [pc..<pc + 1]"
    by (simp add: write_frame_names)
  show ?case
  proof (cases rule: loop_cases[where fc=fc and fte=fte and interval=interval
          and video_fps=video_fps and mf=mf and pc=pc])
    case stop
    then show ?thesis by (intro exI[of _ 0]) simp
  next
    case skip
    then show ?thesis using Cons.IH[of "Suc fc" pc acc w] by simp
  next
    case zero
    then show ?thesis using one by (intro exI[of _ 1]) simp
  next
    case break
    then show ?thesis using one by (intro exI[of _ 1]) simp
  next
    case select
    obtain k where k: "map fst (frames_dir_writes
        (snd (extract_loop ex vf video_fps interval mf fte rest (Suc fc) (Suc pc)
               (acc @ [new_metadata ex vf video_fps fc pc frame w]) ?w1)))
       = map fst (frames_dir_writes ?w1) @ map (frame_filename_of vf) [Suc pc..<Suc pc + k]"
      using Cons.IH by blast
    have "[pc..<pc + Suc k] = pc # [Suc pc..<Suc pc + k]"
      using upt_conv_Cons[of pc "pc + Suc k"] by simp
    then have "map fst (frames_dir_writes
        (snd (extract_loop ex vf video_fps interval mf fte rest (Suc fc) (Suc pc)
               (acc @ [new_metadata ex vf video_fps fc pc frame w]) ?w1)))
       = map fst (frames_dir_writes w) @ map (frame_filename_of vf) [pc..<pc + Suc k]"
      using k by (simp only: write_frame_names) simp
    then show ?thesis using select by (intro exI[of _ "Suc k"]) (simp del: upt_Suc)
  qed
qed

section \<open>Sequence numbers and filenames\<close>

lemma below_ten: "d < 10 \<Longrightarrow> d \<in> {0, 1, 2, 3, 4, 5, 6, 7, 8, 9::nat}"
  by auto

lemma digit_char_val: "d < 10 \<Longrightarrow> digit_val (digit_char d) = d"
  using below_ten[of d] by (auto simp: digit_val_def digit_char_def)

lemma digit_char_is_digit: "d < 10 \<Longrightarrow> is_digit (digit_char d)"
  using below_ten[of d] by (auto simp: is_digit_def digit_char_def)

lemma dec_val_snoc: "dec_val (s @ [c]) = 10 * dec_val s + digit_val c"
  by (simp add: dec_val_def)

lemma dec_val_str_nat: "dec_val (str_nat n) = n"
proof (induction n rule: str_nat.induct)
  case (1 n)
  show ?case
  proof (cases "n < 10")
    case True
    then show ?thesis by (simp add: str_nat.simps[of n] dec_val_def digit_char_val)
  next
    case False
    then show ?thesis using 1 by (simp add: str_nat.simps[of n] dec_val_snoc digit_char_val)
  qed
qed

lemma str_nat_digits: "list_all is_digit (str_nat n)"
proof (induction n rule: str_nat.induct)
  case (1 n)
  show ?case
  proof (cases "n < 10")
    case True
    then show ?thesis by (simp add: str_nat.simps[of n] digit_char_is_digit)
  next
    case False
    then show ?thesis using 1 by (simp add: str_nat.simps[of n] digit_char_is_digit)
  qed
qed

lemma dec_val_zeros: "dec_val (replicate k CHR ''0'' @ s) = dec_val s"
  by (induction k) (simp_all add: dec_val_def digit_val_def)

lemma dec_val_format_05d: "dec_val (format_05d n) = n"
  by (simp add: format_05d_def Let_def dec_val_zeros dec_val_str_nat)

lemma format_05d_digits: "list_all is_digit (format_05d n)"
proof -
  have "list_all is_digit (replicate k CHR ''0'')" for k
    by (simp add: list_all_iff is_digit_def)
  then show ?thesis using str_nat_digits[of n] by (simp add: format_05d_def Let_def)
qed

lemma format_05d_inj: "format_05d n = format_05d m \<Longrightarrow> n = m"
  using dec_val_format_05d by metis

lemma digits_suffix_unique:
  assumes "xs @ a # us = ys @ b # vs" and "\<not> is_digit a" and "\<not> is_digit b"
    and "list_all is_digit us" and "list_all is_digit vs"
  shows "xs = ys \<and> us = vs"
proof -
  have tw: "takeWhile is_digit (rev (zs @ c # ws)) = rev ws"
    if "\<not> is_digit c" and "list_all is_digit ws" for zs c ws
  proof -
    have "takeWhile is_digit (rev ws @ c # rev zs) = rev ws @ takeWhile is_digit (c # rev zs)"
      by (rule takeWhile_append2) (use that(2) in \<open>simp add: list_all_iff\<close>)
    then show ?thesis using that(1) by simp
  qed
  have "takeWhile is_digit (rev (xs @ a # us)) = rev us"
    using assms(2,4) by (rule tw)
  moreover have "takeWhile is_digit (rev (ys @ b # vs)) = rev vs"
    using assms(3,5) by (rule tw)
  ultimately have "rev us = rev vs" using assms(1) by simp
  then have "us = vs" by simp
  then show ?thesis using assms(1) by simp
qed

lemma frame_filename_of_inj:
  assumes "frame_filename_of vf1 n1 = frame_filename_of vf2 n2"
  shows "splitext_root vf1 = splitext_root vf2 \<and> n1 = n2"
proof -
  let ?s1 = "splitext_root vf1" and ?s2 = "splitext_root vf2"
  have "(?s1 @ ''_frame'') @ CHR ''_'' # format_05d n1
      = (?s2 @ ''_frame'') @ CHR ''_'' # format_05d n2"
    using assms by (simp add: frame_filename_of_def)
  from digits_suffix_unique[OF this _ _ format_05d_digits format_05d_digits]
  have "?s1 @ ''_frame'' = ?s2 @ ''_frame''" "format_05d n1 = format_05d n2"
    by (simp_all add: is_digit_def)
  then show ?thesis using format_05d_inj by simp
qed


section \<open>Invariants of the extraction loop\<close>



lemma extract_loop_cap:
  assumes "mf = Some N" and "int pc < N"
  shows "(case fst (extract_loop ex vf video_fps interval mf fte fs fc pc acc w) of
            Inl e \<Rightarrow> True | Inr rs \<Rightarrow> int (length rs) \<le> int (length acc) + (N - int pc))
       \<and> int (length (frames_dir_writes (snd (extract_loop ex vf video_fps interval mf fte fs fc pc acc w))))
            \<le> int (length (frames_dir_writes w)) + (N - int pc)"
  using assms(2)
proof (induction fs arbitrary: fc pc acc w)
  case Nil
  then show ?case by simp
next
  case (Cons frame rest)
  show ?case
  proof (cases rule: loop_cases[where fc=fc and fte=fte and interval=interval
          and video_fps=video_fps and mf=mf and pc=pc])
    case stop
    then show ?thesis using Cons.prems by simp
  next
    case skip
    then show ?thesis using Cons.IH[OF Cons.prems] by simp
  next
    case zero
    then show ?thesis using Cons.prems by (simp add: write_frame_def)
  next
    case break
    then show ?thesis using Cons.prems by (simp add: write_frame_def)
  next
    case select
    then have "int (Suc pc) < N" using assms(1) Cons.prems by (auto simp: cap_reached_def)
    from Cons.IH[OF this, where fc="Suc fc" and acc="acc @ [new_metadata ex vf video_fps fc pc frame w]" and w="write_frame vf pc frame w"]
    show ?thesis using select by (auto simp: write_frame_def split: sum.splits)
  qed
qed





section \<open>The sampling interval and the selected frames\<close>









section \<open>Properties of the Sampler\<close>





text \<open>
  For \<open>max_frames = N\<close> with \<open>N \<ge> 1\<close> the cap holds: one call returns at most \<open>N\<close>
  records and writes at most \<open>N\<close> images, since the loop leaves as soon as
  \<open>processed_count\<close> reaches \<open>N\<close>.
\<close>

lemma max_frames_cap:
  assumes "1 \<le> N"
  shows "(case fst (extract_frames_from_video ex v fps (Some N) w) of
            Inl e \<Rightarrow> True | Inr rs \<Rightarrow> int (length rs) \<le> N)
       \<and> int (length (frames_dir_writes (snd (extract_frames_from_video ex v fps (Some N) w))))
            \<le> int (length (frames_dir_writes w)) + N"
proof (cases "isOpened v")
  case False
  then show ?thesis using assms by (simp add: extract_frames_from_video_def)
next
  case True
  show ?thesis
  proof (cases "frame_interval_of ex (CAP_PROP_FPS v) (target_fps ex fps)")
    case (Inl e)
    then show ?thesis using True assms by (simp add: extract_frames_from_video_def)
  next
    case (Inr interval)
    have "int 0 < N" using assms by simp
    from extract_loop_cap[OF refl this, where ex=ex and vf="basename (video_path v)"
        and video_fps="CAP_PROP_FPS v" and interval=interval
        and fte="frames_to_extract_of (Some N) (py_int (CAP_PROP_FRAME_COUNT v)) interval"
        and fs="frames v" and fc=0 and acc="[]" and w=w]
    show ?thesis using True Inr
      by (simp add: extract_frames_from_video_def split: sum.splits)
  qed
qed

lemma max_frames_cap_at_two:
  "(1::int) \<le> 2
   \<and> (case fst (extract_frames_from_video demo_extractor demo_clip None (Some 2) fresh_world) of
         Inl e \<Rightarrow> True | Inr rs \<Rightarrow> int (length rs) \<le> 2)
   \<and> int (length (frames_dir_writes
         (snd (extract_frames_from_video demo_extractor demo_clip None (Some 2) fresh_world))))
        \<le> int (length (frames_dir_writes fresh_world)) + 2
   \<and> map frame_number (projr (fst
         (extract_frames_from_video demo_extractor demo_clip None (Some 2) fresh_world))) = [0, 3]"
proof -
  have "map frame_number (projr (fst
         (extract_frames_from_video demo_extractor demo_clip None (Some 2) fresh_world))) = [0, 3]"
    by (simp add: demo_simps new_metadata_def)
  then show ?thesis
    using max_frames_cap[of 2 demo_extractor demo_clip None fresh_world] by simp
qed


text \<open>
  Claim C4. The docstring has \<open>max_frames\<close> as the "maximum number of frames to
  extract", and the claim asks for at most \<open>N\<close> selected frames for every \<open>N\<close>. The code
  does not do that at \<open>max_frames = 0\<close>: both tests of the cap are
  \<^verbatim>\<open>if max_frames\<close>, which is false for 0 as it is for \<open>None\<close>, so no cap applies and
  every interval-th frame is selected. Here the call with \<open>max_frames = 0\<close> returns two
  records where the claim allows none.
\<close>

theorem max_frames_zero_selects_every_frame:
  "map frame_number (projr (fst
      (extract_frames_from_video demo_extractor short_clip None (Some 0) fresh_world))) = [0, 1]
   \<and> \<not> int (length (projr (fst
      (extract_frames_from_video demo_extractor short_clip None (Some 0) fresh_world)))) \<le> 0"
  by (simp add: demo_simps new_metadata_def)





section \<open>Properties of the Captioner\<close>

lemma frame_caption_no_model [simp]: "frame_caption (ex\<lparr>clip_model := None\<rparr>) frame = None"
  by (simp add: frame_caption_def)

lemma py_truediv_no_model [simp]:
  "py_truediv (ex\<lparr>clip_model := None\<rparr>) x y = py_truediv ex x y"
  by (simp add: py_truediv_def)

lemma frame_interval_of_no_model [simp]:
  "frame_interval_of (ex\<lparr>clip_model := None\<rparr>) video_fps fps = frame_interval_of ex video_fps fps"
  by (simp add: frame_interval_of_def)

lemma new_metadata_no_model:
  "new_metadata (ex\<lparr>clip_model := None\<rparr>) vf video_fps fc pc frame w
     = without_description (new_metadata ex vf video_fps fc pc frame w)"
  by (simp add: new_metadata_def without_description_def)

lemma target_fps_no_model [simp]:
  "target_fps (ex\<lparr>clip_model := None\<rparr>) fps = target_fps ex fps"
  by (cases fps) (simp_all add: target_fps_def)

lemma frame_caption_raises:
  "clip_model ex = Some model \<Longrightarrow> isl (model frame) \<Longrightarrow> frame_caption ex frame = None"
  by (auto simp: frame_caption_def generate_frame_description_def isl_def)

lemma extract_loop_no_model:
  "extract_loop (ex\<lparr>clip_model := None\<rparr>) vf video_fps interval mf fte fs fc pc
       (map without_description acc) w
     = (map_sum id (map without_description)
          (fst (extract_loop ex vf video_fps interval mf fte fs fc pc acc w)),
        snd (extract_loop ex vf video_fps interval mf fte fs fc pc acc w))"
proof (induction fs arbitrary: fc pc acc w)
  case Nil
  show ?case by simp
next
  case (Cons frame rest)
  show ?case
  proof (cases rule: loop_cases[where fc=fc and fte=fte and interval=interval
          and video_fps=video_fps and mf=mf and pc=pc])
    case select
    have "map without_description (acc @ [new_metadata ex vf video_fps fc pc frame w])
        = map without_description acc
            @ [new_metadata (ex\<lparr>clip_model := None\<rparr>) vf video_fps fc pc frame w]"
      by (simp add: new_metadata_no_model)
    with Cons.IH[of "Suc fc" "Suc pc" "acc @ [new_metadata ex vf video_fps fc pc frame w]"
        "write_frame vf pc frame w"] select
    show ?thesis by simp
  qed (simp_all add: Cons.IH new_metadata_no_model)
qed

lemma extract_loop_descriptions:
  assumes "extract_loop ex vf video_fps interval mf fte fs fc pc acc w = (Inr rs, w')"
    and "r \<in> set rs"
  shows "r \<in> set acc \<or> (\<exists>i<length fs. frame_number r = int (fc + i)
            \<and> description r = frame_caption ex (fs ! i))"
  using assms
proof (induction fs arbitrary: fc pc acc w)
  case Nil
  then show ?case by simp
next
  case (Cons frame rest)
  have new: "frame_number (new_metadata ex vf video_fps fc pc frame w) = int (fc + 0)"
    "description (new_metadata ex vf video_fps fc pc frame w) = frame_caption ex ((frame # rest) ! 0)"
    by (simp_all add: new_metadata_def)
  have lift: "\<exists>i<length (frame # rest). frame_number r = int (fc + i)
            \<and> description r = frame_caption ex ((frame # rest) ! i)"
    if "\<exists>i<length rest. frame_number r = int (Suc fc + i)
            \<and> description r = frame_caption ex (rest ! i)"
  proof -
    from that obtain i where "i < length rest" "frame_number r = int (Suc fc + i)"
      "description r = frame_caption ex (rest ! i)" by blast
    then have "Suc i < length (frame # rest) \<and> frame_number r = int (fc + Suc i)
        \<and> description r = frame_caption ex ((frame # rest) ! Suc i)" by simp
    then show ?thesis by blast
  qed
  show ?case
  proof (cases rule: loop_cases[where fc=fc and fte=fte and interval=interval
          and video_fps=video_fps and mf=mf and pc=pc])
    case stop
    then show ?thesis using Cons.prems by simp
  next
    case skip
    then have "extract_loop ex vf video_fps interval mf fte rest (Suc fc) pc acc w = (Inr rs, w')"
      using Cons.prems(1) by simp
    from Cons.IH[OF this Cons.prems(2)] lift show ?thesis by blast
  next
    case zero
    then show ?thesis using Cons.prems by simp
  next
    case break
    then have "rs = acc @ [new_metadata ex vf video_fps fc pc frame w]"
      using Cons.prems(1) by simp
    then have "r \<in> set acc \<or> r = new_metadata ex vf video_fps fc pc frame w"
      using Cons.prems(2) by auto
    then show ?thesis using new by (metis length_greater_0_conv list.distinct(1))
  next
    case select
    then have "extract_loop ex vf video_fps interval mf fte rest (Suc fc) (Suc pc)
        (acc @ [new_metadata ex vf video_fps fc pc frame w]) (write_frame vf pc frame w) = (Inr rs, w')"
      using Cons.prems(1) by simp
    from Cons.IH[OF this Cons.prems(2)]
    have "r \<in> set acc \<or> r = new_metadata ex vf video_fps fc pc frame w
        \<or> (\<exists>i<length rest. frame_number r = int (Suc fc + i)
            \<and> description r = frame_caption ex (rest ! i))" by auto
    then show ?thesis using new lift by (metis length_greater_0_conv list.distinct(1))
  qed
qed


lemma str_nat_small: "str_nat 0 = ''0''" "str_nat (Suc 0) = ''1''"
  by (simp_all add: str_nat.simps digit_char_def)

lemma raising_run:
  "extract_frames_from_video raising_extractor short_clip None None fresh_world
     = (Inr [\<lparr> frame_id = ''uuid-0'', filename = ''short_frame_00000.jpg'',
               video_filename = ''short.mp4'', frame_number = 0, timestamp = 0,
               description = None \<rparr>,
             \<lparr> frame_id = ''uuid-1'', filename = ''short_frame_00001.jpg'',
               video_filename = ''short.mp4'', frame_number = 1, timestamp = 1,
               description = None \<rparr>],
        \<lparr> frames_dir_writes = [(''short_frame_00000.jpg'', 10), (''short_frame_00001.jpg'', 11)],
          metadata_json = None, uuid_calls = 2 \<rparr>)"
  by (simp add: raising_extractor_def raising_model_def demo_simps new_metadata_def write_frame_def
      frame_caption_def generate_frame_description_def frame_filename_of_def splitext_root_def
      format_05d_def str_nat.simps digit_char_def eval_nat_numeral)



text \<open>
  Claim C9. An exception raised while captioning a frame is caught inside
  \<open>_generate_frame_description\<close> and becomes "no caption". First, what a pass returns
  with any captioner is what it returns with no captioner at all, up to the captions: the
  same error or the same records, and the same files written, so no outcome of the
  captioner reaches the caller. Second, every record returned belongs to a decoded frame,
  and when captioning that frame raised, the record has no \<open>description\<close>.
\<close>

theorem captioning_errors_are_contained:
  "extract_frames_from_video (ex\<lparr>clip_model := None\<rparr>) v fps mf w
     = (map_sum id (map without_description) (fst (extract_frames_from_video ex v fps mf w)),
        snd (extract_frames_from_video ex v fps mf w))
   \<and> (clip_model ex = Some model \<longrightarrow> extract_frames_from_video ex v fps mf w = (Inr rs, w')
        \<longrightarrow> r \<in> set rs
        \<longrightarrow> (\<exists>i<length (frames v). frame_number r = int i
               \<and> (isl (model (frames v ! i)) \<longrightarrow> description r = None)))"
proof (intro conjI impI)
  show "extract_frames_from_video (ex\<lparr>clip_model := None\<rparr>) v fps mf w
     = (map_sum id (map without_description) (fst (extract_frames_from_video ex v fps mf w)),
        snd (extract_frames_from_video ex v fps mf w))"
  proof (cases "isOpened v")
    case False
    then show ?thesis by (simp add: extract_frames_from_video_def)
  next
    case True
    show ?thesis
    proof (cases "frame_interval_of ex (CAP_PROP_FPS v) (target_fps ex fps)")
      case (Inl e)
      then show ?thesis using True by (simp add: extract_frames_from_video_def)
    next
      case (Inr interval)
      then show ?thesis
        using True extract_loop_no_model[where acc="[]" and ex=ex]
        by (simp add: extract_frames_from_video_def Let_def)
    qed
  qed
next
  assume model: "clip_model ex = Some model"
    and run: "extract_frames_from_video ex v fps mf w = (Inr rs, w')"
    and r: "r \<in> set rs"
  from run obtain interval where
    "extract_loop ex (basename (video_path v)) (CAP_PROP_FPS v) interval mf
       (frames_to_extract_of mf (py_int (CAP_PROP_FRAME_COUNT v)) interval) (frames v) 0 0 [] w
     = (Inr rs, w')"
    by (auto simp: extract_frames_from_video_def Let_def split: if_splits sum.splits)
  from extract_loop_descriptions[OF this r]
  obtain i where i: "i < length (frames v)" "frame_number r = int i"
    "description r = frame_caption ex (frames v ! i)" by auto
  have "isl (model (frames v ! i)) \<longrightarrow> description r = None"
    using i(3) frame_caption_raises[OF model] by simp
  with i(1,2) show "\<exists>i<length (frames v). frame_number r = int i
               \<and> (isl (model (frames v ! i)) \<longrightarrow> description r = None)" by blast
qed

theorem captioning_errors_are_contained_witness:
  "clip_model raising_extractor = Some raising_model
   \<and> extract_frames_from_video raising_extractor short_clip None None fresh_world
        = (Inr [short_record 0, short_record 1], short_world)
   \<and> short_record 1 \<in> set [short_record 0, short_record 1]
   \<and> isl (raising_model 10) \<and> isl (raising_model 11)
   \<and> description (short_record 1) = None
   \<and> extract_frames_from_video (raising_extractor\<lparr>clip_model := None\<rparr>) short_clip None None
         fresh_world
        = (Inr [short_record 0, short_record 1], short_world)"
proof -
  have model: "clip_model raising_extractor = Some raising_model"
    by (simp add: raising_extractor_def)
  have run: "extract_frames_from_video raising_extractor short_clip None None fresh_world
        = (Inr [short_record 0, short_record 1], short_world)"
    using raising_run by (simp add: short_record_def short_world_def str_nat_small)
  have r: "short_record 1 \<in> set [short_record 0, short_record 1]" by simp
  have raises: "isl (raising_model frame)" for frame by (simp add: raising_model_def)
  have plain: "without_description (short_record k) = short_record k" for k
    by (simp add: without_description_def short_record_def)
  note contained = captioning_errors_are_contained[where ex=raising_extractor and v=short_clip
      and fps=None and mf=None and w=fresh_world and model=raising_model
      and rs="[short_record 0, short_record 1]" and w'=short_world and r="short_record 1"]
  from contained model run r
  obtain i where "isl (raising_model (frames short_clip ! i)) \<longrightarrow> description (short_record 1) = None"
    by blast
  then have "description (short_record 1) = None" using raises by simp
  moreover have "extract_frames_from_video (raising_extractor\<lparr>clip_model := None\<rparr>) short_clip
      None None fresh_world = (Inr [short_record 0, short_record 1], short_world)"
    using contained run by (simp add: plain)
  ultimately show ?thesis using model run r raises by simp
qed


section \<open>Properties of the batch run\<close>

lemma extract_unopenable:
  "\<not> isOpened v \<Longrightarrow> extract_frames_from_video ex v fps mf w
     = (Inl (ValueError (''Could not open video file: '' @ video_path v)), w)"
  by (simp add: extract_frames_from_video_def)

lemma extract_metadata_json:
  "metadata_json (snd (extract_frames_from_video ex v fps mf w)) = metadata_json w"
  by (simp add: extract_frames_from_video_def Let_def extract_loop_metadata_json split: sum.splits)

lemma extract_writes:
  "\<exists>k. map fst (frames_dir_writes (snd (extract_frames_from_video ex v fps mf w)))
       = map fst (frames_dir_writes w) @ map (frame_filename_of (basename (video_path v))) [0..<k]"
proof (cases "isOpened v")
  case False
  then show ?thesis by (intro exI[of _ 0]) (simp add: extract_unopenable)
next
  case True
  show ?thesis
  proof (cases "frame_interval_of ex (CAP_PROP_FPS v) (target_fps ex fps)")
    case (Inl e)
    then show ?thesis using True
      by (intro exI[of _ 0]) (simp add: extract_frames_from_video_def)
  next
    case (Inr interval)
    then show ?thesis
      using True extract_loop_writes[where pc=0 and acc="[]" and w=w and ex=ex
          and vf="basename (video_path v)" and video_fps="CAP_PROP_FPS v" and interval=interval
          and mf=mf and fs="frames v" and fc=0
          and fte="frames_to_extract_of mf (py_int (CAP_PROP_FRAME_COUNT v)) interval"]
      by (simp add: extract_frames_from_video_def Let_def)
  qed
qed

lemma process_videos_loop_metadata_json:
  "metadata_json (snd (process_videos_loop ex vs all_metadata w)) = metadata_json w"
proof (induction vs arbitrary: all_metadata w)
  case Nil
  show ?case by simp
next
  case (Cons v vs)
  obtain res w1 where run: "extract_frames_from_video ex v None None w = (res, w1)"
    by (cases "extract_frames_from_video ex v None None w")
  then have "metadata_json w1 = metadata_json w"
    using extract_metadata_json[of ex v None None w] by simp
  then show ?case using run Cons.IH by (cases res) simp_all
qed

lemma process_videos_loop_append:
  "process_videos_loop ex (pre @ rest) all_metadata w
     = (case process_videos_loop ex pre all_metadata w of
          (Inl e, w1) \<Rightarrow> (Inl e, w1)
        | (Inr all1, w1) \<Rightarrow> process_videos_loop ex rest all1 w1)"
proof (induction pre arbitrary: all_metadata w)
  case Nil
  show ?case by simp
next
  case (Cons v pre)
  show ?case
    by (cases "extract_frames_from_video ex v None None w")
       (auto simp: Cons.IH split: sum.splits)
qed

lemma process_videos_loop_unopenable:
  assumes "\<not> isOpened bad" and "bad \<in> set vs"
  shows "\<exists>e w'. process_videos_loop ex vs all_metadata w = (Inl e, w')"
  using assms(2)
proof (induction vs arbitrary: all_metadata w)
  case Nil
  then show ?case by simp
next
  case (Cons v vs)
  obtain res w1 where run: "extract_frames_from_video ex v None None w = (res, w1)"
    by (cases "extract_frames_from_video ex v None None w")
  show ?case
  proof (cases res)
    case (Inl e)
    then show ?thesis using run by simp
  next
    case (Inr frame_metadata)
    then have "v \<noteq> bad" using run assms(1) extract_unopenable[of v ex None None w] by auto
    then have "bad \<in> set vs" using Cons.prems by simp
    from Cons.IH[OF this] show ?thesis using run Inr by simp
  qed
qed

lemma video_files_of_mixed_batch:
  "video_files_of mixed_batch = [short_clip] @ broken_video ''data/videos/bad.mp4'' # [demo_clip]"
  by (simp add: video_files_of_def glob_ext_def mixed_batch_def demo_simps suffix_to_prefix)

lemma video_files_of_bad_first_batch:
  "video_files_of bad_first_batch = [broken_video ''data/videos/bad.mp4'', short_clip]"
  by (simp add: video_files_of_def glob_ext_def bad_first_batch_def demo_simps suffix_to_prefix)

lemma short_run:
  "extract_frames_from_video demo_extractor short_clip None None fresh_world
     = (Inr [short_record 0, short_record 1], short_world)"
  by (simp add: demo_simps new_metadata_def write_frame_def short_record_def short_world_def
      frame_caption_def frame_filename_of_def splitext_root_def
      format_05d_def str_nat.simps digit_char_def eval_nat_numeral)

lemma short_loop:
  "process_videos_loop demo_extractor [short_clip] [] fresh_world
     = (Inr [(''uuid-0'', short_record 0), (''uuid-1'', short_record 1)], short_world)"
  by (simp add: short_run) (simp add: short_record_def str_nat_small)


text \<open>
  Claim C2, as amended. A video that cannot be opened makes \<open>extract_frames_from_video\<close>
  raise \<open>ValueError\<close>, and \<open>process_all_videos\<close> calls it with no \<open>try\<close> around the call.
  So when one of the video files of a batch cannot be opened, the batch ends with an
  error and writes no metadata snapshot; and when the videos before it were extracted
  without error, the error is that video's \<open>ValueError\<close> and the world is the one those
  videos left: no later video is processed.
\<close>

theorem batch_stops_at_unopenable_video:
  assumes "video_files_of entries = pre @ bad # post" and "\<not> isOpened bad"
  shows "(\<exists>e w'. process_all_videos ex entries w = (Inl e, w')
              \<and> metadata_json w' = metadata_json w)
       \<and> (\<forall>all1 w1. process_videos_loop ex pre [] w = (Inr all1, w1) \<longrightarrow>
             process_all_videos ex entries w
               = (Inl (ValueError (''Could not open video file: '' @ video_path bad)), w1))"
proof (intro conjI allI impI)
  have ne: "video_files_of entries \<noteq> []" using assms(1) by simp
  have "bad \<in> set (video_files_of entries)" using assms(1) by simp
  from process_videos_loop_unopenable[OF assms(2) this]
  obtain e w' where run: "process_videos_loop ex (video_files_of entries) [] w = (Inl e, w')"
    by blast
  then have "metadata_json w' = metadata_json w"
    using process_videos_loop_metadata_json[of ex "video_files_of entries" "[]" w] by simp
  then show "\<exists>e w'. process_all_videos ex entries w = (Inl e, w')
              \<and> metadata_json w' = metadata_json w"
    using run ne by (simp add: process_all_videos_def)
next
  fix all1 w1 assume pre: "process_videos_loop ex pre [] w = (Inr all1, w1)"
  have ne: "video_files_of entries \<noteq> []" using assms(1) by simp
  have "process_videos_loop ex (video_files_of entries) [] w
      = (Inl (ValueError (''Could not open video file: '' @ video_path bad)), w1)"
    unfolding assms(1) process_videos_loop_append pre
    by (simp add: extract_unopenable[OF assms(2)])
  then show "process_all_videos ex entries w
      = (Inl (ValueError (''Could not open video file: '' @ video_path bad)), w1)"
    using ne by (simp add: process_all_videos_def)
qed


theorem batch_stops_at_unopenable_video_witness:
  "video_files_of mixed_batch = [short_clip] @ broken_video ''data/videos/bad.mp4'' # [demo_clip]
   \<and> \<not> isOpened (broken_video ''data/videos/bad.mp4'')
   \<and> process_videos_loop demo_extractor [short_clip] [] fresh_world
        = (Inr [(''uuid-0'', short_record 0), (''uuid-1'', short_record 1)], short_world)
   \<and> process_all_videos demo_extractor mixed_batch fresh_world
        = (Inl (ValueError ''Could not open video file: data/videos/bad.mp4''), short_world)
   \<and> metadata_json short_world = metadata_json fresh_world"
proof -
  have closed: "\<not> isOpened (broken_video ''data/videos/bad.mp4'')"
    by (simp add: broken_video_def)
  note stops = batch_stops_at_unopenable_video[OF video_files_of_mixed_batch closed,
      of demo_extractor fresh_world]
  from stops short_loop
  have "process_all_videos demo_extractor mixed_batch fresh_world
        = (Inl (ValueError (''Could not open video file: ''
              @ video_path (broken_video ''data/videos/bad.mp4''))), short_world)"
    by blast
  moreover from stops this have "metadata_json short_world = metadata_json fresh_world"
    by auto
  ultimately show ?thesis
    using video_files_of_mixed_batch closed short_loop by (simp add: broken_video_def)
qed


text \<open>
  Claim C2 as stated fails on a batch whose first video is unreadable and whose second
  is good: the run returns the error of the first, the good video is never processed (no
  image is written, though the video alone is extracted without error), and no snapshot is
  written.
\<close>

theorem batch_continues_counterexample:
  "video_files_of bad_first_batch = [broken_video ''data/videos/bad.mp4'', short_clip]
   \<and> process_all_videos demo_extractor bad_first_batch fresh_world
        = (Inl (ValueError ''Could not open video file: data/videos/bad.mp4''), fresh_world)
   \<and> frames_dir_writes (snd (process_all_videos demo_extractor bad_first_batch fresh_world)) = []
   \<and> metadata_json (snd (process_all_videos demo_extractor bad_first_batch fresh_world)) = None
   \<and> extract_frames_from_video demo_extractor short_clip None None fresh_world
        = (Inr [short_record 0, short_record 1], short_world)"
  using video_files_of_bad_first_batch short_run
  by (simp add: process_all_videos_def extract_unopenable broken_video_def fresh_world_def)

section \<open>Filenames of persisted frames\<close>

lemma frame_filenames_distinct: "distinct (map (frame_filename_of vf) [0..<k])"
proof -
  have "inj_on (frame_filename_of vf) (set [0..<k])"
    by (rule inj_onI) (use frame_filename_of_inj in blast)
  then show ?thesis by (simp add: distinct_map)
qed

lemma process_videos_loop_distinct_names:
  assumes "distinct (map video_stem vs)"
    and "map fst (frames_dir_writes w) = old @ cur" and "distinct cur"
    and "\<forall>x\<in>set cur. \<exists>vf k. x = frame_filename_of vf k
           \<and> splitext_root vf \<notin> set (map video_stem vs)"
  shows "\<exists>cur'. map fst (frames_dir_writes (snd (process_videos_loop ex vs all_metadata w)))
            = old @ cur' \<and> distinct cur'"
  using assms
proof (induction vs arbitrary: all_metadata w cur)
  case Nil
  then show ?case by simp
next
  case (Cons v vs)
  let ?vf = "basename (video_path v)"
  obtain res w1 where run: "extract_frames_from_video ex v None None w = (res, w1)"
    by (cases "extract_frames_from_video ex v None None w")
  obtain k where "map fst (frames_dir_writes w1)
       = map fst (frames_dir_writes w) @ map (frame_filename_of ?vf) [0..<k]"
    using extract_writes[of ex v None None w] run by auto
  then have names1: "map fst (frames_dir_writes w1) = old @ (cur @ map (frame_filename_of ?vf) [0..<k])"
    using Cons.prems(2) by simp
  have stem_v: "video_stem v \<notin> set (map video_stem vs)" and dvs: "distinct (map video_stem vs)"
    using Cons.prems(1) by simp_all
  have disjoint: "x \<notin> set (map (frame_filename_of ?vf) [0..<k])" if "x \<in> set cur" for x
  proof
    assume "x \<in> set (map (frame_filename_of ?vf) [0..<k])"
    then obtain i where i: "x = frame_filename_of ?vf i" by auto
    from Cons.prems(4) that obtain vf j where
      j: "x = frame_filename_of vf j" "splitext_root vf \<notin> set (map video_stem (v # vs))"
      by blast
    from i j(1) have "splitext_root vf = splitext_root ?vf"
      using frame_filename_of_inj[of vf j ?vf i] by simp
    then show False using j(2) by (simp add: video_stem_def)
  qed
  have d1: "distinct (cur @ map (frame_filename_of ?vf) [0..<k])"
    using Cons.prems(3) frame_filenames_distinct[of ?vf k] disjoint
    by (simp only: distinct_append) blast
  have inv1: "\<forall>x\<in>set (cur @ map (frame_filename_of ?vf) [0..<k]). \<exists>vf k. x = frame_filename_of vf k
           \<and> splitext_root vf \<notin> set (map video_stem vs)"
  proof
    fix x assume "x \<in> set (cur @ map (frame_filename_of ?vf) [0..<k])"
    then consider "x \<in> set cur" | "x \<in> set (map (frame_filename_of ?vf) [0..<k])" by auto
    then show "\<exists>vf k. x = frame_filename_of vf k \<and> splitext_root vf \<notin> set (map video_stem vs)"
    proof cases
      case 1
      with Cons.prems(4) obtain vf j where
        "x = frame_filename_of vf j" "splitext_root vf \<notin> set (map video_stem (v # vs))" by blast
      then have "x = frame_filename_of vf j \<and> splitext_root vf \<notin> set (map video_stem vs)" by simp
      then show ?thesis by blast
    next
      case 2
      then obtain i where "x = frame_filename_of ?vf i" by auto
      then have "x = frame_filename_of ?vf i \<and> splitext_root ?vf \<notin> set (map video_stem vs)"
        using stem_v by (simp add: video_stem_def)
      then show ?thesis by blast
    qed
  qed
  show ?case
  proof (cases res)
    case (Inl e)
    then show ?thesis using run names1 d1 by simp
  next
    case (Inr frame_metadata)
    from Cons.IH[OF dvs names1 d1 inv1] show ?thesis using run Inr by simp
  qed
qed

lemmas name_simps = frame_filename_of_def splitext_root_def format_05d_def str_nat.simps
  digit_char_def eval_nat_numeral

lemma video_files_of_good_batch: "video_files_of good_batch = [short_clip, demo_clip]"
  by (simp add: video_files_of_def glob_ext_def good_batch_def demo_simps suffix_to_prefix)

lemma good_batch_names:
  "map fst (frames_dir_writes (snd (process_all_videos demo_extractor good_batch fresh_world)))
     = [''short_frame_00000.jpg'', ''short_frame_00001.jpg'',
        ''clip_frame_00000.jpg'', ''clip_frame_00001.jpg'', ''clip_frame_00002.jpg'']"
  unfolding process_all_videos_def video_files_of_good_batch
  by (simp add: demo_simps new_metadata_def write_frame_def frame_caption_def name_simps)


lemma frame_filenames_distinct_in_run:
  assumes "distinct (map video_stem (video_files_of entries))"
  shows "\<exists>new. map fst (frames_dir_writes (snd (process_all_videos ex entries w)))
            = map fst (frames_dir_writes w) @ new \<and> distinct new"
proof (cases "video_files_of entries = []")
  case True
  then show ?thesis by (simp add: process_all_videos_def)
next
  case False
  from process_videos_loop_distinct_names[OF assms, of w "map fst (frames_dir_writes w)" "[]"
      ex "[]"]
  obtain new where new: "map fst (frames_dir_writes
        (snd (process_videos_loop ex (video_files_of entries) [] w)))
      = map fst (frames_dir_writes w) @ new" "distinct new" by auto
  obtain res w1 where run: "process_videos_loop ex (video_files_of entries) [] w = (res, w1)"
    by (cases "process_videos_loop ex (video_files_of entries) [] w")
  have "map fst (frames_dir_writes (snd (process_all_videos ex entries w)))
      = map fst (frames_dir_writes w1)"
    using False run by (cases res) (simp_all add: process_all_videos_def)
  then show ?thesis using new run by auto
qed


lemma extract_loop_appends:
  "\<exists>new. frames_dir_writes (snd (extract_loop ex vf video_fps interval mf fte fs fc pc acc w))
      = frames_dir_writes w @ new"
proof (induction fs arbitrary: fc pc acc w)
  case Nil
  show ?case by simp
next
  case (Cons frame rest)
  show ?case
  proof (cases rule: loop_cases[where fc=fc and fte=fte and interval=interval
          and video_fps=video_fps and mf=mf and pc=pc])
    case select
    obtain new where "frames_dir_writes (snd (extract_loop ex vf video_fps interval mf fte rest
        (Suc fc) (Suc pc) (acc @ [new_metadata ex vf video_fps fc pc frame w])
        (write_frame vf pc frame w)))
      = frames_dir_writes (write_frame vf pc frame w) @ new"
      using Cons.IH by blast
    then show ?thesis using select by (simp add: write_frame_def)
  qed (simp_all add: Cons.IH write_frame_def)
qed

lemma extract_appends:
  "\<exists>new. frames_dir_writes (snd (extract_frames_from_video ex v fps mf w))
      = frames_dir_writes w @ new"
  using extract_loop_appends[where w=w and ex=ex]
  by (simp add: extract_frames_from_video_def Let_def split: sum.splits)

lemma process_videos_loop_appends:
  "\<exists>new. frames_dir_writes (snd (process_videos_loop ex vs all_metadata w))
      = frames_dir_writes w @ new"
proof (induction vs arbitrary: all_metadata w)
  case Nil
  show ?case by simp
next
  case (Cons v vs)
  obtain res w1 where run: "extract_frames_from_video ex v None None w = (res, w1)"
    by (cases "extract_frames_from_video ex v None None w")
  obtain new1 where new1: "frames_dir_writes w1 = frames_dir_writes w @ new1"
    using extract_appends[of ex v None None w] run by auto
  show ?case
  proof (cases res)
    case (Inl e)
    then show ?thesis using run new1 by simp
  next
    case (Inr frame_metadata)
    obtain new2 where "frames_dir_writes (snd (process_videos_loop ex vs
        (fold (\<lambda>metadata all. AList.update (frame_id metadata) metadata all)
           frame_metadata all_metadata) w1)) = frames_dir_writes w1 @ new2"
      using Cons.IH by blast
    then show ?thesis using run Inr new1 by simp
  qed
qed

lemma process_all_videos_appends:
  "\<exists>new. frames_dir_writes (snd (process_all_videos ex entries w)) = frames_dir_writes w @ new"
proof (cases "video_files_of entries = []")
  case True
  then show ?thesis by (simp add: process_all_videos_def)
next
  case False
  obtain res w1 where run: "process_videos_loop ex (video_files_of entries) [] w = (res, w1)"
    by (cases "process_videos_loop ex (video_files_of entries) [] w")
  then obtain new where "frames_dir_writes w1 = frames_dir_writes w @ new"
    using process_videos_loop_appends[of ex "video_files_of entries" "[]" w] by auto
  then show ?thesis using False run by (cases res) (simp_all add: process_all_videos_def)
qed

lemma last_write_wins:
  assumes "distinct (map fst new)" and "(name, frame) \<in> set new"
  shows "map_of (rev (old @ new)) name = Some frame"
proof -
  have "distinct (map fst (rev new))" using assms(1) by (simp add: rev_map[symmetric])
  moreover have "(name, frame) \<in> set (rev new)" using assms(2) by simp
  ultimately have "map_of (rev new) name = Some frame" by (rule map_of_is_SomeI)
  then show ?thesis by (simp add: map_of_append map_add_def)
qed

lemma good_batch_writes:
  "frames_dir_writes (snd (process_all_videos demo_extractor good_batch fresh_world))
     = [(''short_frame_00000.jpg'', 10), (''short_frame_00001.jpg'', 11),
        (''clip_frame_00000.jpg'', 10), (''clip_frame_00001.jpg'', 13),
        (''clip_frame_00002.jpg'', 16)]"
  unfolding process_all_videos_def video_files_of_good_batch
  by (simp add: demo_simps new_metadata_def write_frame_def frame_caption_def name_simps)


text \<open>
  Claim C6, as amended. The filename of a frame is built from the stem of the video's
  filename and the frame's sequence number within that video. When the video files of a
  batch have pairwise distinct stems, the frames written during one run get pairwise
  distinct filenames, and each image written in the run is the image its file holds when
  the run ends, whether the run ends normally or with an error. Nothing keeps the names
  apart from those of another run.
\<close>

theorem frame_filenames_collision_free:
  assumes "distinct (map video_stem (video_files_of entries))"
  shows "\<exists>new. frames_dir_writes (snd (process_all_videos ex entries w))
                 = frames_dir_writes w @ new
            \<and> distinct (map fst new)
            \<and> list_all (\<lambda>(name, frame).
                  frames_dir_file (snd (process_all_videos ex entries w)) name = Some frame) new"
proof -
  obtain new where new: "frames_dir_writes (snd (process_all_videos ex entries w))
      = frames_dir_writes w @ new"
    using process_all_videos_appends by blast
  obtain names where names: "map fst (frames_dir_writes (snd (process_all_videos ex entries w)))
      = map fst (frames_dir_writes w) @ names" "distinct names"
    using frame_filenames_distinct_in_run[OF assms] by blast
  have d: "distinct (map fst new)" using new names by simp
  have "frames_dir_file (snd (process_all_videos ex entries w)) name = Some frame"
    if "(name, frame) \<in> set new" for name frame
    unfolding frames_dir_file_def new using d that by (rule last_write_wins)
  then have "list_all (\<lambda>(name, frame).
      frames_dir_file (snd (process_all_videos ex entries w)) name = Some frame) new"
    by (auto simp: list_all_iff)
  then show ?thesis using new d by blast
qed


theorem frame_filenames_collision_free_witness:
  "distinct (map video_stem (video_files_of good_batch))
   \<and> frames_dir_writes (snd (process_all_videos demo_extractor good_batch fresh_world))
     = [(''short_frame_00000.jpg'', 10), (''short_frame_00001.jpg'', 11),
        (''clip_frame_00000.jpg'', 10), (''clip_frame_00001.jpg'', 13),
        (''clip_frame_00002.jpg'', 16)]
   \<and> distinct (map fst (frames_dir_writes
         (snd (process_all_videos demo_extractor good_batch fresh_world))))
   \<and> frames_dir_file (snd (process_all_videos demo_extractor good_batch fresh_world))
         ''clip_frame_00001.jpg'' = Some 13"
proof -
  have stems: "distinct (map video_stem (video_files_of good_batch))"
    unfolding video_files_of_good_batch
    by (simp add: video_stem_def demo_simps splitext_root_def)
  from frame_filenames_collision_free[OF stems, of demo_extractor fresh_world]
  obtain new where new:
    "frames_dir_writes (snd (process_all_videos demo_extractor good_batch fresh_world))
       = frames_dir_writes fresh_world @ new"
    "distinct (map fst new)"
    "list_all (\<lambda>(name, frame).
        frames_dir_file (snd (process_all_videos demo_extractor good_batch fresh_world)) name
          = Some frame) new"
    by blast
  have all: "new = frames_dir_writes (snd (process_all_videos demo_extractor good_batch fresh_world))"
    using new(1) by (simp add: fresh_world_def)
  have "(''clip_frame_00001.jpg'', 13) \<in> set new" unfolding all good_batch_writes by simp
  then have "frames_dir_file (snd (process_all_videos demo_extractor good_batch fresh_world))
         ''clip_frame_00001.jpg'' = Some 13"
    using new(3) by (auto simp: list_all_iff)
  then show ?thesis using stems good_batch_writes new(2) all by simp
qed


text \<open>
  Claim C6 as stated fails twice. Two videos in one directory whose names differ only in
  the extension, \<open>a.mp4\<close> and \<open>a.avi\<close>, are both video files of the batch, both have the
  stem \<open>a\<close>, and the first frame of each is written to \<open>a_frame_00000.jpg\<close>. And a file
  is not stable once written: a second run over the same video at another rate writes
  another frame under \<open>quad_frame_00001.jpg\<close>.
\<close>

theorem frame_filenames_collision_counterexample:
  "video_files_of twin_batch
     = [demo_video ''data/videos/a.mp4'' 1 [10], demo_video ''data/videos/a.avi'' 1 [20]]
   \<and> frames_dir_writes (snd (process_all_videos demo_extractor twin_batch fresh_world))
     = [(''a_frame_00000.jpg'', 10), (''a_frame_00000.jpg'', 20)]
   \<and> \<not> distinct (map fst (frames_dir_writes
         (snd (process_all_videos demo_extractor twin_batch fresh_world))))
   \<and> frames_dir_file (snd (process_all_videos demo_extractor [quad_clip] fresh_world))
        ''quad_frame_00001.jpg'' = Some 14
   \<and> frames_dir_file
        (snd (process_all_videos faster_extractor [quad_clip]
           (snd (process_all_videos demo_extractor [quad_clip] fresh_world))))
        ''quad_frame_00001.jpg'' = Some 12"
proof -
  have files: "video_files_of twin_batch
     = [demo_video ''data/videos/a.mp4'' 1 [10], demo_video ''data/videos/a.avi'' 1 [20]]"
    by (simp add: video_files_of_def glob_ext_def twin_batch_def demo_simps suffix_to_prefix)
  have twins: "frames_dir_writes (snd (process_all_videos demo_extractor twin_batch fresh_world))
     = [(''a_frame_00000.jpg'', 10), (''a_frame_00000.jpg'', 20)]"
    unfolding process_all_videos_def files
    by (simp add: demo_simps new_metadata_def write_frame_def frame_caption_def name_simps)
  have quad: "video_files_of [quad_clip] = [quad_clip]"
    by (simp add: video_files_of_def glob_ext_def quad_clip_def demo_simps suffix_to_prefix)
  have one: "frames_dir_writes (snd (process_all_videos demo_extractor [quad_clip] fresh_world))
     = [(''quad_frame_00000.jpg'', 10), (''quad_frame_00001.jpg'', 14)]"
    unfolding process_all_videos_def quad
    by (simp add: quad_clip_def demo_simps new_metadata_def write_frame_def frame_caption_def
        name_simps)
  have two: "frames_dir_writes
        (snd (process_all_videos faster_extractor [quad_clip]
           (snd (process_all_videos demo_extractor [quad_clip] fresh_world))))
     = [(''quad_frame_00000.jpg'', 10), (''quad_frame_00001.jpg'', 14),
        (''quad_frame_00000.jpg'', 10), (''quad_frame_00001.jpg'', 12),
        (''quad_frame_00002.jpg'', 14), (''quad_frame_00003.jpg'', 16)]"
    unfolding process_all_videos_def quad
    by (simp add: faster_extractor_def quad_clip_def demo_simps new_metadata_def write_frame_def
        frame_caption_def name_simps)
  show ?thesis using files twins by (simp add: frames_dir_file_def one two)
qed


section \<open>Properties of the Indexer\<close>

lemma py_strip_nonempty:
  assumes "c \<in> set s" and "\<not> is_space c"
  shows "py_strip s \<noteq> []"
proof -
  have keep: "c \<in> set (dropWhile is_space xs)" if "c \<in> set xs" for xs
  proof -
    have "c \<notin> set (takeWhile is_space xs)" using assms(2) by (auto dest: set_takeWhileD)
    moreover have "set xs = set (takeWhile is_space xs) \<union> set (dropWhile is_space xs)"
      by (metis set_append takeWhile_dropWhile_id)
    ultimately show ?thesis using that by auto
  qed
  have "c \<in> set (rev (dropWhile is_space s))" using keep[OF assms(1)] by simp
  then have "c \<in> set (dropWhile is_space (rev (dropWhile is_space s)))" by (rule keep)
  then have "dropWhile is_space (rev (dropWhile is_space s)) \<noteq> []" by (cases "dropWhile is_space (rev (dropWhile is_space s))") simp_all
  then show ?thesis by (simp only: py_strip_def rev_is_Nil_conv) simp
qed

lemma replace_separators:
  "replace_char CHR ''-'' CHR '' '' (replace_char CHR ''_'' CHR '' '' s)
     = map (\<lambda>c. if c = CHR ''_'' \<or> c = CHR ''-'' then CHR '' '' else c) s"
  by (simp add: replace_char_def)

lemma document_of_record: "document_of (frame_data_of r) = Inr (spec_document r)"
  by (cases "description r")
     (simp_all add: document_of_def frame_data_of_def spec_document_def replace_separators)

lemma spec_document_not_blank: "py_strip (spec_document r) \<noteq> []"
proof (rule py_strip_nonempty)
  show "CHR ''V'' \<in> set (spec_document r)" by (simp add: spec_document_def)
  show "\<not> is_space CHR ''V''" by (simp add: is_space_def)
qed


lemma prepare_entries_step:
  "prepare_entries ((fid, frame_data_of r) # items) batch
     = prepare_entries items (batch @ [entry_of fid r])"
proof -
  have fields: "fd_video_filename (frame_data_of r) = Some (video_filename r)"
    "fd_frame_number (frame_data_of r) = Some (frame_number r)"
    "fd_timestamp (frame_data_of r) = Some (timestamp r)"
    by (simp_all add: frame_data_of_def)
  show ?thesis
    using spec_document_not_blank[of r]
    by (simp add: document_of_record fields entry_of_def)
qed

lemma prepare_entries_records:
  "prepare_entries (map (\<lambda>(fid, r). (fid, frame_data_of r)) md) batch
     = Inr (batch @ map (\<lambda>(fid, r). entry_of fid r) md)"
proof (induction md arbitrary: batch)
  case Nil
  show ?case by simp
next
  case (Cons p md)
  obtain fid r where p: "p = (fid, r)" by (cases p)
  show ?case
    using Cons.IH[of "batch @ [entry_of fid r]"]
    by (simp add: p prepare_entries_step del: prepare_entries.simps)
qed

lemma batch_slice:
  "take (min (100 * k + 100) (length batch) - 100 * k) (drop (100 * k) batch)
     = take 100 (drop (100 * k) batch)"
  by (cases "100 * k + 100 \<le> length batch") (simp_all add: min_def)

lemma add_batches_step:
  "add_batches batch (Suc n) k w
     = add_batches batch n (Suc k)
         (w\<lparr>collection := Some (entries_of w @ take 100 (drop (100 * k) batch)),
            stdout := stdout w @ [''Indexed batch '' @ str_nat (100 * k div 100 + 1) @ ''/''
                                   @ str_nat ((length batch - 1) div 100 + 1)]\<rparr>)"
  using batch_slice[of k batch]
  by (simp only: add_batches.simps Let_def entries_of_def)

lemma add_batches_entries:
  "entries_of (add_batches batch n k w)
     = entries_of w @ take (100 * n) (drop (100 * k) batch)"
proof (induction n arbitrary: k w)
  case 0
  show ?case by simp
next
  case (Suc n)
  define w' where "w' = w\<lparr>collection := Some (entries_of w @ take 100 (drop (100 * k) batch)),
            stdout := stdout w @ [''Indexed batch '' @ str_nat (100 * k div 100 + 1) @ ''/''
                                   @ str_nat ((length batch - 1) div 100 + 1)]\<rparr>"
  have w': "entries_of w' = entries_of w @ take 100 (drop (100 * k) batch)"
    by (simp add: w'_def entries_of_def)
  have "drop (100 * Suc k) batch = drop (100 * n0) (drop 100 (drop (100 * k) batch))"
    if "n0 = 0" for n0 :: nat
    using that by (simp add: add.commute)
  then have d: "drop (100 * Suc k) batch = drop 100 (drop (100 * k) batch)" by simp
  have t: "take (100 * Suc n) (drop (100 * k) batch)
      = take 100 (drop (100 * k) batch) @ take (100 * n) (drop 100 (drop (100 * k) batch))"
    using take_add[of 100 "100 * n" "drop (100 * k) batch"] by simp
  have "entries_of (add_batches batch (Suc n) k w) = entries_of (add_batches batch n (Suc k) w')"
    by (simp only: add_batches_step w'_def)
  also have "\<dots> = entries_of w' @ take (100 * n) (drop (100 * Suc k) batch)"
    by (rule Suc.IH)
  also have "\<dots> = entries_of w @ take (100 * Suc n) (drop (100 * k) batch)"
    by (simp only: w' d t append_assoc)
  finally show ?case .
qed

lemma add_batches_keeps:
  "collection w \<noteq> None \<Longrightarrow> collection (add_batches batch n k w) \<noteq> None"
  by (induction n arbitrary: k w) (simp_all add: Let_def)

lemma open_collection_entries:
  "collection (open_collection a iw) = Some (if recreate a then [] else entries_of iw)"
  by (cases "collection iw") (simp_all add: open_collection_def Let_def entries_of_def)


text \<open>
  Claim C8. For every frame record, the document built for indexing is, in this order,
  the caption when there is one, the label \<open>Video:\<close> with the stem of the video's
  filename in which \<open>_\<close> and \<open>-\<close> are replaced by spaces, and the two fixed phrases,
  joined by single spaces. It is not empty after trimming, with or without a caption. So
  no record is skipped: \<open>index_frames\<close> returns normally and the collection then holds,
  after the entries it had (none under \<open>--recreate\<close>), one entry per record of the
  metadata, in order, with that document.
\<close>

theorem document_of_every_record:
  "document_of (frame_data_of r) = Inr (spec_document r)
   \<and> py_strip (spec_document r) \<noteq> []
   \<and> fst (index_frames (map (\<lambda>(fid, r). (fid, frame_data_of r)) md) a iw) = Inr ()
   \<and> collection (snd (index_frames (map (\<lambda>(fid, r). (fid, frame_data_of r)) md) a iw))
       = Some ((if recreate a then [] else entries_of iw)
               @ map (\<lambda>(fid, r). entry_of fid r) md)"
proof (intro conjI)
  show "document_of (frame_data_of r) = Inr (spec_document r)" by (rule document_of_record)
  show "py_strip (spec_document r) \<noteq> []" by (rule spec_document_not_blank)
  show "fst (index_frames (map (\<lambda>(fid, r). (fid, frame_data_of r)) md) a iw) = Inr ()"
    by (simp add: index_frames_def Let_def prepare_entries_records)
  show "collection (snd (index_frames (map (\<lambda>(fid, r). (fid, frame_data_of r)) md) a iw))
       = Some ((if recreate a then [] else entries_of iw)
               @ map (\<lambda>(fid, r). entry_of fid r) md)"
  proof (cases "md = []")
    case True
    then show ?thesis by (simp add: index_frames_def Let_def open_collection_entries)
  next
    case False
    define batch where "batch = map (\<lambda>(fid, r). entry_of fid r) md"
    define w3 where "w3 = open_collection a iw"
    define n where "n = (length batch + 99) div 100"
    have ne: "batch \<noteq> []" using False by (simp add: batch_def)
    have base: "entries_of w3 = (if recreate a then [] else entries_of iw)"
      by (simp add: w3_def entries_of_def open_collection_entries)
    have "length batch \<le> 100 * n" unfolding n_def by linarith
    then have whole: "take (100 * n) (drop (100 * 0) batch) = batch" by simp
    have "collection w3 \<noteq> None" by (simp add: w3_def open_collection_entries)
    then obtain c where c: "collection (add_batches batch n 0 w3) = Some c"
      using add_batches_keeps[of w3 batch n 0] by auto
    then have "c = entries_of w3 @ batch"
      using add_batches_entries[of batch n 0 w3] whole by (simp add: entries_of_def)
    then have added: "collection (add_batches batch n 0 w3)
        = Some ((if recreate a then [] else entries_of iw) @ batch)"
      using c base by simp
    have "collection (snd (index_frames (map (\<lambda>(fid, r). (fid, frame_data_of r)) md) a iw))
        = collection (add_batches batch n 0 w3)"
      using ne by (simp add: index_frames_def prepare_entries_records Let_def
          batch_def[symmetric] w3_def[symmetric] n_def[symmetric])
    then show ?thesis using added by (simp add: batch_def)
  qed
qed

theorem document_of_every_record_witness:
  "document_of (frame_data_of plain_record)
     = Inr ''Video: my clip 01 Frame from video content Scene from video''
   \<and> py_strip ''Video: my clip 01 Frame from video content Scene from video'' \<noteq> []
   \<and> fst (index_frames [(''uuid-7'', frame_data_of plain_record)] plain_args empty_index) = Inr ()
   \<and> collection (snd (index_frames [(''uuid-7'', frame_data_of plain_record)] plain_args
         empty_index))
       = Some [\<lparr> entry_id = ''uuid-7'',
                  entry_document = ''Video: my clip 01 Frame from video content Scene from video'',
                  entry_video_filename = ''my_clip-01.mp4'', entry_frame_number = 0,
                  entry_timestamp = 0 \<rparr>]"
proof -
  have doc: "spec_document plain_record
      = ''Video: my clip 01 Frame from video content Scene from video''"
    by (simp add: spec_document_def plain_record_def splitext_root_def)
  have entry: "entry_of ''uuid-7'' plain_record
      = \<lparr> entry_id = ''uuid-7'',
          entry_document = ''Video: my clip 01 Frame from video content Scene from video'',
          entry_video_filename = ''my_clip-01.mp4'', entry_frame_number = 0,
          entry_timestamp = 0 \<rparr>"
    unfolding entry_of_def doc by (simp add: plain_record_def)
  have base: "(if recreate plain_args then [] else entries_of empty_index) = []"
    by (simp add: plain_args_def empty_index_def entries_of_def)
  show ?thesis
    using document_of_every_record[of plain_record "[(''uuid-7'', plain_record)]" plain_args
        empty_index]
    unfolding doc base by (simp add: entry)
qed


text \<open>
  Claim C7, as amended. With no video file in the videos directory, the extraction step
  raises \<open>ValueError\<close> with the message \<open>No video files found in \<dots>\<close> and changes
  nothing. With no document to index, the indexing step does not raise: it prints
  \<open>No frames to index!\<close> and returns before anything is added to the collection and
  before the smoke test; the collection has been created, or deleted and created again
  under \<open>--recreate\<close>, by then.
\<close>

theorem empty_corpus_outcomes:
  "(video_files_of entries = [] \<longrightarrow>
      process_all_videos ex entries w
        = (Inl (ValueError (''No video files found in '' @ videos_dir ex)), w))
   \<and> (prepare_entries metadata [] = Inr [] \<longrightarrow>
        fst (index_frames metadata a iw) = Inr ()
      \<and> stdout (snd (index_frames metadata a iw))
          = stdout iw @ [''Indexing frames in ChromaDB...'']
            @ (if recreate a \<and> collection iw \<noteq> None
               then [''Deleted existing collection: '' @ COLLECTION_NAME] else [])
            @ [''No frames to index!'']
      \<and> collection (snd (index_frames metadata a iw))
          = Some (if recreate a then [] else (case collection iw of None \<Rightarrow> [] | Some c \<Rightarrow> c))
      \<and> test_query_started (snd (index_frames metadata a iw)) = test_query_started iw)"
  by (cases "collection iw")
     (simp_all add: process_all_videos_def index_frames_def open_collection_def Let_def)

theorem empty_corpus_outcomes_witness:
  "video_files_of ([] :: nat video list) = []
   \<and> process_all_videos demo_extractor [] fresh_world
        = (Inl (ValueError ''No video files found in data/videos''), fresh_world)
   \<and> prepare_entries [] [] = Inr []
   \<and> fst (index_frames [] plain_args empty_index) = Inr ()
   \<and> stdout (snd (index_frames [] plain_args empty_index))
        = [''Indexing frames in ChromaDB...'', ''No frames to index!'']
   \<and> collection (snd (index_frames [] plain_args empty_index)) = Some []"
proof -
  have none: "video_files_of ([] :: nat video list) = []"
    by (simp add: video_files_of_def glob_ext_def)
  have nothing: "prepare_entries [] [] = Inr []" by simp
  from empty_corpus_outcomes[of "[]" demo_extractor fresh_world "[]" plain_args empty_index]
    none nothing
  show ?thesis by (simp add: demo_extractor_def plain_args_def empty_index_def)
qed


text \<open>
  Claim C7 as stated fails for the indexing step: on empty metadata \<open>index_frames\<close>
  returns normally, with the message printed, where the claim has it fail with an error.
\<close>

theorem empty_index_counterexample:
  "index_frames [] plain_args empty_index
     = (Inr (), \<lparr> collection = Some [],
                   stdout = [''Indexing frames in ChromaDB...'', ''No frames to index!''],
                   test_query_started = False \<rparr>)
   \<and> \<not> isl (fst (index_frames [] plain_args empty_index))"
  by (simp add: index_frames_def open_collection_def plain_args_def empty_index_def)


section \<open>Properties of the Retriever\<close>

lemma similarity_of_low: "d \<le> 1 \<Longrightarrow> similarity_of d = d"
  by (simp add: similarity_of_def)

lemma similarity_of_high: "1 < d \<Longrightarrow> similarity_of d = 1 - min d 2 / 2"
  by (simp add: similarity_of_def)

lemma search_results_scores:
  "r \<in> set (search_results md hits) \<Longrightarrow>
     \<exists>(fid, d) \<in> set hits. \<exists>m. md fid = Some m \<and> image_url r = filename m
        \<and> similarity_score r = Some (similarity_of d)"
  by (induction md hits rule: search_results.induct) (auto split: option.splits)

text \<open>
  Claim C1, as amended. The specification asks for a mapping that is non-increasing in the
  distance and sends distance 0 to similarity 1. The guard \<open>similarity > 1.0\<close> passes every
  distance up to 1 through unchanged, so the mapping sends 0 to 0 and 1 to 1 and rises on
  \<open>[0, 1]\<close>. What holds: the mapping is non-increasing on distances above 1, it is the
  identity on \<open>[0, 1]\<close>, every distance of at least 2 gets similarity 0, and every
  non-negative distance gets a similarity in \<open>[0, 1]\<close>.
\<close>

theorem similarity_of_amended:
  assumes "1 < d1" and "d1 \<le> d2" and "0 \<le> d3" and "d3 \<le> 1" and "2 \<le> d4" and "0 \<le> d5"
  shows "similarity_of d2 \<le> similarity_of d1
       \<and> similarity_of d3 = d3
       \<and> similarity_of d4 = 0
       \<and> 0 \<le> similarity_of d5 \<and> similarity_of d5 \<le> 1"
  using assms by (auto simp: similarity_of_def min_def)

theorem similarity_of_amended_witness:
  "(1::real) < 3/2 \<and> (3/2::real) \<le> 3 \<and> (0::real) \<le> 1/4 \<and> (1/4::real) \<le> 1
     \<and> (2::real) \<le> 5 \<and> (0::real) \<le> 7/4
     \<and> similarity_of 3 \<le> similarity_of (3/2)
     \<and> similarity_of (1/4) = 1/4
     \<and> similarity_of 5 = 0
     \<and> 0 \<le> similarity_of (7/4) \<and> similarity_of (7/4) \<le> 1"
  using similarity_of_amended [of "3/2" 3 "1/4" 5 "7/4"] by simp

text \<open>
  Claim C1 as stated fails at distance 0, which gets similarity 0 and not 1, and between
  the distances 0 and 1, where the similarity rises from 0 to 1.
\<close>

theorem similarity_of_counterexample:
  "similarity_of 0 \<noteq> 1 \<and> (0::real) \<le> 1 \<and> \<not> similarity_of 1 \<le> similarity_of 0"
  by (simp add: similarity_of_def)

lemma similarity_of_eq_spec:
  "0 \<le> distance \<Longrightarrow> similarity_of distance = spec_similarity distance"
  by (simp add: similarity_of_def spec_similarity_def)

text \<open>
  Claim C5. The results of a search are, in the order of the hits, one result for every
  hit whose id is in the metadata mapping, and the score attached to it is the one the
  specification gives for the hit's raw distance: the distance itself when it lies in
  \<open>[0, 1]\<close>, and \<open>1 - min(distance, 2) / 2\<close> otherwise. The distances that the
  collection returns are not negative.
\<close>

theorem search_results_scores_follow_spec:
  assumes "list_all (\<lambda>(fid, distance). 0 \<le> distance) hits"
  shows "search_results frame_metadata hits
       = List.map_filter
           (\<lambda>(fid, distance).
              case frame_metadata fid of
                None \<Rightarrow> None
              | Some metadata \<Rightarrow>
                  Some \<lparr> image_url = filename metadata,
                         resp_video_filename = video_filename metadata,
                         resp_frame_number = frame_number metadata,
                         similarity_score = Some (spec_similarity distance) \<rparr>)
           hits"
  using assms
proof (induction frame_metadata hits rule: search_results.induct)
  case (1 frame_metadata)
  show ?case by (simp add: map_filter_simps)
next
  case (2 frame_metadata fid distance hits)
  have "0 \<le> distance" using "2.prems" by simp
  then have score: "similarity_of distance = spec_similarity distance"
    by (rule similarity_of_eq_spec)
  have rest: "list_all (\<lambda>(fid, distance). 0 \<le> distance) hits" using "2.prems" by simp
  show ?case
  proof (cases "frame_metadata fid")
    case None
    then show ?thesis using "2.IH"(1)[OF None rest] by (simp add: map_filter_simps)
  next
    case (Some metadata)
    then show ?thesis using "2.IH"(2)[OF Some rest] score by (simp add: map_filter_simps)
  qed
qed

theorem search_results_scores_follow_spec_witness:
  "list_all (\<lambda>(fid, distance). 0 \<le> distance) demo_hits
   \<and> search_results demo_metadata demo_hits
       = [\<lparr> image_url = ''short_frame_00001.jpg'', resp_video_filename = ''short.mp4'',
            resp_frame_number = 1, similarity_score = Some (1/2) \<rparr>,
          \<lparr> image_url = ''short_frame_00000.jpg'', resp_video_filename = ''short.mp4'',
            resp_frame_number = 0, similarity_score = Some (1/4) \<rparr>]"
proof -
  have h: "list_all (\<lambda>(fid, distance). 0 \<le> distance) demo_hits" by (simp add: demo_hits_def)
  from search_results_scores_follow_spec[OF h, of demo_metadata]
  have "search_results demo_metadata demo_hits
       = [\<lparr> image_url = ''short_frame_00001.jpg'', resp_video_filename = ''short.mp4'',
            resp_frame_number = 1, similarity_score = Some (1/2) \<rparr>,
          \<lparr> image_url = ''short_frame_00000.jpg'', resp_video_filename = ''short.mp4'',
            resp_frame_number = 0, similarity_score = Some (1/4) \<rparr>]"
    by (simp add: demo_hits_def demo_metadata_def map_filter_simps spec_similarity_def
        short_record_def str_nat_small)
  then show ?thesis using h by simp
qed

end
